theory Spec2Isabelle
  imports Main "HOL-Library.Monad_Syntax"
begin

section \<open>Values\<close>

text \<open>
  An \<open>Item\<close> is a tagged value together with the out-of-band flag, which is
  orthogonal to the tag.  Arrays and dictionaries are heap objects: the natural
  number is the identity (address) of the object, so that two arrays with equal
  contents are still two objects.
\<close>

datatype val =
    FlcNil
  | FlcInt int
  | FlcRange int int int bool
  | FlcFunc nat
  | FlcArray nat "item list"
  | FlcDict nat "(item \<times> item) list"
and item = Item (isOob: bool) (payload: val)

abbreviation nil_item :: item where
  "nil_item \<equiv> Item False FlcNil"

abbreviation int_item :: "int \<Rightarrow> item" where
  "int_item n \<equiv> Item False (FlcInt n)"

section \<open>Raw memory of item buffers\<close>

text \<open>
  \<open>memAlloc\<close>, \<open>memFree\<close>, \<open>memcpy\<close> and \<open>memmove\<close> work on buffers of items.
  A buffer is known by its address; address \<open>0\<close> is the null pointer and is never
  handed out.  Sizes are counted in items (\<open>esize n\<close> is \<open>n\<close> items), and the
  cells of a new buffer hold nil until they are written.  A copy that would
  touch a cell outside either buffer is a memory fault, the value \<open>None\<close>.
\<close>

record heap =
  bufs :: "nat \<Rightarrow> item list option"
  brk :: nat

definition memAlloc :: "nat \<Rightarrow> heap \<Rightarrow> nat \<times> heap" where
  "memAlloc n h =
     (Suc (brk h), h\<lparr>bufs := (bufs h)(Suc (brk h) \<mapsto> replicate n nil_item), brk := Suc (brk h)\<rparr>)"

definition memFree :: "nat \<Rightarrow> heap \<Rightarrow> heap" where
  "memFree p h = h\<lparr>bufs := (bufs h)(p := None)\<rparr>"

definition memmove :: "heap \<Rightarrow> nat \<Rightarrow> nat \<Rightarrow> nat \<Rightarrow> nat \<Rightarrow> nat \<Rightarrow> heap option" where
  "memmove h dst doff src soff n =
     (case bufs h src of
        None \<Rightarrow> None
      | Some s \<Rightarrow>
         (case bufs h dst of
            None \<Rightarrow> None
          | Some d \<Rightarrow>
             if soff + n \<le> length s \<and> doff + n \<le> length d
             then Some (h\<lparr>bufs := (bufs h)(dst \<mapsto>
                          take doff d @ take n (drop soff s) @ drop (doff + n) d)\<rparr>)
             else None))"

definition memcpy :: "heap \<Rightarrow> nat \<Rightarrow> nat \<Rightarrow> nat \<Rightarrow> nat \<Rightarrow> nat \<Rightarrow> heap option" where
  "memcpy h dst doff src soff n = memmove h dst doff src soff n"

definition store :: "heap \<Rightarrow> nat \<Rightarrow> nat \<Rightarrow> item \<Rightarrow> heap option" where
  "store h p i x =
     (case bufs h p of
        None \<Rightarrow> None
      | Some d \<Rightarrow> if i < length d then Some (h\<lparr>bufs := (bufs h)(p \<mapsto> d[i := x])\<rparr>) else None)"

definition load :: "heap \<Rightarrow> nat \<Rightarrow> nat \<Rightarrow> item option" where
  "load h p i =
     (case bufs h p of
        None \<Rightarrow> None
      | Some d \<Rightarrow> if i < length d then Some (d ! i) else None)"

section \<open>Machine integers\<close>

text \<open>
  \<open>m_size\<close> and \<open>m_alloc\<close> are \<open>uint32\<close>, positions are \<open>int32\<close>.  The
  conversions of the source are written out: \<open>to_uint32\<close> wraps modulo \<open>2^32\<close>,
  \<open>to_int32\<close> reads the low 32 bits as two's complement.
\<close>

definition to_uint32 :: "int \<Rightarrow> nat" where
  "to_uint32 x = nat (x mod 4294967296)"

definition to_int32 :: "int \<Rightarrow> int" where
  "to_int32 x = (x + 2147483648) mod 4294967296 - 2147483648"

section \<open>ItemArray\<close>

record ItemArray =
  m_alloc :: nat
  m_size :: nat
  m_data :: nat

text \<open>The logical contents: the first \<open>m_size\<close> cells of the buffer.\<close>

definition contents :: "heap \<Rightarrow> ItemArray \<Rightarrow> item list" where
  "contents h a = (case bufs h (m_data a) of None \<Rightarrow> [] | Some d \<Rightarrow> take (m_size a) d)"

text \<open>
  A well-formed array: its sizes fit \<open>uint32\<close>, \<open>capacity >= length\<close>, and it
  is either the empty array without a buffer or owns a live buffer of
  \<open>m_alloc\<close> cells.
\<close>

definition wf_array :: "heap \<Rightarrow> ItemArray \<Rightarrow> bool" where
  "wf_array h a \<longleftrightarrow>
     m_size a \<le> m_alloc a \<and> m_alloc a < 4294967296 \<and>
     (if m_data a = 0 then m_alloc a = 0
      else m_data a \<le> brk h \<and> (case bufs h (m_data a) of None \<Rightarrow> False | Some d \<Rightarrow> length d = m_alloc a))"

text \<open>\<open>ItemArray::insert( const Item &ndata, int32 pos )\<close>; \<open>growth\<close> is \<open>flc_ARRAY_GROWTH\<close>.\<close>

definition insert_item :: "nat \<Rightarrow> heap \<Rightarrow> ItemArray \<Rightarrow> item \<Rightarrow> int \<Rightarrow> (bool \<times> ItemArray \<times> heap) option" where
  "insert_item growth h a ndata pos0 =
     (let pos = (if pos0 < 0 then to_int32 (int (m_size a) + pos0) else pos0) in
      if pos < 0 \<or> pos > to_int32 (int (m_size a)) then Some (False, a, h)
      else if m_alloc a \<le> m_size a then
        (let alloc' = to_uint32 (int (m_size a) + int growth);
             (mem, h0) = memAlloc alloc' h
         in do {
           h1 \<leftarrow> (if pos > 0 then memcpy h0 mem 0 (m_data a) 0 (nat pos) else Some h0);
           h2 \<leftarrow> (if pos < to_int32 (int (m_size a))
                  then memcpy h1 mem (nat pos + 1) (m_data a) (nat pos) (to_uint32 (int (m_size a) - pos))
                  else Some h1);
           h3 \<leftarrow> store h2 mem (nat pos) ndata;
           Some (True, a\<lparr>m_alloc := alloc', m_size := to_uint32 (int (m_size a) + 1), m_data := mem\<rparr>,
                 memFree (m_data a) h3)
         })
      else do {
        h1 \<leftarrow> (if pos < to_int32 (int (m_size a))
               then memmove h (m_data a) (nat pos + 1) (m_data a) (nat pos) (to_uint32 (int (m_size a) - pos))
               else Some h);
        h2 \<leftarrow> store h1 (m_data a) (nat pos) ndata;
        Some (True, a\<lparr>m_size := to_uint32 (int (m_size a) + 1)\<rparr>, h2)
      })"

text \<open>\<open>ItemArray::insert( const ItemArray &other, int32 pos )\<close>.\<close>

definition insert_array :: "heap \<Rightarrow> ItemArray \<Rightarrow> ItemArray \<Rightarrow> int \<Rightarrow> (bool \<times> ItemArray \<times> heap) option" where
  "insert_array h a other pos0 =
     (if m_size other = 0 then Some (True, a, h)
      else
       (let pos = (if pos0 < 0 then to_int32 (int (m_size a) + pos0) else pos0) in
        if pos < 0 \<or> pos > to_int32 (int (m_size a)) then Some (False, a, h)
        else if m_alloc a < to_uint32 (int (m_size a) + int (m_size other)) then
          (let alloc' = to_uint32 (int (m_size a) + int (m_size other));
               (mem, h0) = memAlloc alloc' h
           in do {
             h1 \<leftarrow> (if pos > 0 then memcpy h0 mem 0 (m_data a) 0 (nat pos) else Some h0);
             h2 \<leftarrow> (if pos < to_int32 (int (m_size a))
                    then memcpy h1 mem (nat pos + m_size other) (m_data a) (nat pos)
                           (to_uint32 (int (m_size a) - pos))
                    else Some h1);
             h3 \<leftarrow> memcpy h2 mem (nat pos) (m_data other) 0 (m_size other);
             Some (True, a\<lparr>m_alloc := alloc', m_size := alloc', m_data := mem\<rparr>, memFree (m_data a) h3)
           })
        else do {
          h1 \<leftarrow> (if pos < to_int32 (int (m_size a))
                 then memmove h (m_data a) (m_size other + nat pos) (m_data a) (nat pos)
                        (to_uint32 (int (m_size a) - pos))
                 else Some h);
          h2 \<leftarrow> memcpy h1 (m_data a) (nat pos) (m_data other) 0 (m_size other);
          Some (True, a\<lparr>m_size := to_uint32 (int (m_size a) + int (m_size other))\<rparr>, h2)
        }))"

text \<open>\<open>ItemArray::remove( int32 first, int32 last )\<close>.\<close>

definition remove_range :: "heap \<Rightarrow> ItemArray \<Rightarrow> int \<Rightarrow> int \<Rightarrow> (bool \<times> ItemArray \<times> heap) option" where
  "remove_range h a first0 last0 =
     (let first1 = (if first0 < 0 then to_int32 (int (m_size a) + first0) else first0) in
      if first1 < 0 \<or> first1 \<ge> to_int32 (int (m_size a)) then Some (False, a, h)
      else
       (let last1 = (if last0 < 0 then to_int32 (int (m_size a) + last0) else last0) in
        if last1 < 0 \<or> last1 > to_int32 (int (m_size a)) then Some (False, a, h)
        else
         (let (first, last) = (if first1 > last1 then (last1, to_int32 (first1 + 1)) else (first1, last1));
              rsize = to_uint32 (last - first)
          in do {
            h1 \<leftarrow> (if last < to_int32 (int (m_size a))
                   then memmove h (m_data a) (nat first) (m_data a) (nat last)
                          (to_uint32 (int (m_size a) - last))
                   else Some h);
            Some (True, a\<lparr>m_size := to_uint32 (int (m_size a) - int rsize)\<rparr>, h1)
          })))"

text \<open>\<open>ItemArray::remove( int32 first )\<close>.\<close>

definition remove :: "heap \<Rightarrow> ItemArray \<Rightarrow> int \<Rightarrow> (bool \<times> ItemArray \<times> heap) option" where
  "remove h a first0 =
     (let first = (if first0 < 0 then to_int32 (int (m_size a) + first0) else first0) in
      if first < 0 \<or> first \<ge> to_int32 (int (m_size a)) then Some (False, a, h)
      else do {
        h1 \<leftarrow> (if first < to_int32 (to_int32 (int (m_size a)) - 1)
               then memmove h (m_data a) (nat first) (m_data a) (nat first + 1)
                      (to_uint32 (int (m_size a) - first))
               else Some h);
        Some (True, a\<lparr>m_size := to_uint32 (int (m_size a) - 1)\<rparr>, h1)
      })"

text \<open>\<open>ItemArray::change( const ItemArray &other, int32 begin, int32 end )\<close>.\<close>

definition change :: "heap \<Rightarrow> ItemArray \<Rightarrow> ItemArray \<Rightarrow> int \<Rightarrow> int \<Rightarrow> (bool \<times> ItemArray \<times> heap) option" where
  "change h a other begin0 end0 =
     (let begin1 = (if begin0 < 0 then to_int32 (int (m_size a) + begin0) else begin0) in
      if begin1 < 0 \<or> begin1 > to_int32 (int (m_size a)) then Some (False, a, h)
      else
       (let end1 = (if end0 < 0 then to_int32 (int (m_size a) + end0) else end0) in
        if end1 < 0 \<or> end1 > to_int32 (int (m_size a)) then Some (False, a, h)
        else
         (let (begin, end) = (if begin1 > end1 then (end1, to_int32 (begin1 + 1)) else (begin1, end1));
              rsize = to_int32 (end - begin);
              nsize = to_uint32 (int (m_size a) - rsize + int (m_size other))
          in
          if nsize > m_alloc a then
            (let (mem, h0) = memAlloc nsize h in do {
               h1 \<leftarrow> (if begin > 0 then memcpy h0 mem 0 (m_data a) 0 (nat begin) else Some h0);
               h2 \<leftarrow> (if m_size other > 0
                      then memcpy h1 mem (nat begin) (m_data other) 0 (m_size other) else Some h1);
               h3 \<leftarrow> (if end < to_int32 (int (m_size a))
                      then memcpy h2 mem (nat begin + m_size other) (m_data a) (nat end)
                             (to_uint32 (int (m_size a) - end))
                      else Some h2);
               Some (True, a\<lparr>m_alloc := nsize, m_size := nsize, m_data := mem\<rparr>, memFree (m_data a) h3)
             })
          else do {
            h1 \<leftarrow> (if end < to_int32 (int (m_size a))
                   then memmove h (m_data a) (nat begin + m_size other) (m_data a) (nat end)
                          (to_uint32 (int (m_size a) - end))
                   else Some h);
            h2 \<leftarrow> (if m_size other > 0
                   then memcpy h1 (m_data a) (nat begin) (m_data other) 0 (m_size other) else Some h1);
            Some (True, a\<lparr>m_size := nsize\<rparr>, h2)
          })))"

text \<open>The loop of the reversed branch of \<open>partition\<close>: \<open>buffer[i] = m_data[start - i]\<close>.\<close>

function copy_reversed :: "heap \<Rightarrow> nat \<Rightarrow> nat \<Rightarrow> int \<Rightarrow> nat \<Rightarrow> nat \<Rightarrow> heap option" where
  "copy_reversed h buffer src start i sz =
     (if int i < int sz then
        (if start - int i < 0 then None
         else case load h src (nat (start - int i)) of
                None \<Rightarrow> None
              | Some x \<Rightarrow>
                 (case store h buffer i x of
                    None \<Rightarrow> None
                  | Some h' \<Rightarrow> copy_reversed h' buffer src start (Suc i) sz))
      else Some h)"
  by pat_completeness auto
termination
  by (relation "measure (\<lambda>(h, buffer, src, start, i, sz). sz - i)") auto

text \<open>
  \<open>ItemArray::partition( int32 start, int32 end )\<close>.  The result is a pointer:
  \<open>None\<close> is the null pointer, \<open>Some b\<close> a newly built array.
\<close>

definition partition :: "heap \<Rightarrow> ItemArray \<Rightarrow> int \<Rightarrow> int \<Rightarrow> (ItemArray option \<times> heap) option" where
  "partition h a start0 end0 =
     (let start = (if start0 < 0 then to_int32 (int (m_size a) + start0) else start0) in
      if start < 0 \<or> start \<ge> to_int32 (int (m_size a)) then Some (None, h)
      else
       (let end = (if end0 < 0 then to_int32 (int (m_size a) + end0) else end0) in
        if end < 0 \<or> end > to_int32 (int (m_size a)) then Some (None, h)
        else if end < start then
          (let sz = to_int32 (start - end + 1);
               (buffer, h0) = memAlloc (to_uint32 sz) h
           in do {
             h1 \<leftarrow> copy_reversed h0 buffer (m_data a) start 0 (nat sz);
             Some (Some \<lparr>m_alloc = to_uint32 sz, m_size = to_uint32 sz, m_data = buffer\<rparr>, h1)
           })
        else if end = start then Some (Some \<lparr>m_alloc = 0, m_size = 0, m_data = 0\<rparr>, h)
        else
          (let sz = to_int32 (end - start);
               (buffer, h0) = memAlloc (to_uint32 sz) h
           in do {
             h1 \<leftarrow> memcpy h0 buffer 0 (m_data a) (nat start) (to_uint32 sz);
             Some (Some \<lparr>m_alloc = to_uint32 sz, m_size = to_uint32 sz, m_data = buffer\<rparr>, h1)
           })))"

text \<open>
  The normalisation of a position as the specification gives it,
  \<open>idx >= 0 ? idx : length + idx\<close>, on unbounded integers.
\<close>

definition normalized :: "nat \<Rightarrow> int \<Rightarrow> int" where
  "normalized len idx = (if idx \<ge> 0 then idx else int len + idx)"

text \<open>The values an \<open>int32\<close> argument can take.\<close>

definition is_int32 :: "int \<Rightarrow> bool" where
  "is_int32 x \<longleftrightarrow> - 2147483648 \<le> x \<and> x < 2147483648"

text \<open>A position outside \<open>[0, len]\<close>, and one outside \<open>[0, len)\<close>.\<close>

definition outside_closed :: "nat \<Rightarrow> int \<Rightarrow> bool" where
  "outside_closed len idx \<longleftrightarrow> normalized len idx < 0 \<or> int len < normalized len idx"

definition outside_open :: "nat \<Rightarrow> int \<Rightarrow> bool" where
  "outside_open len idx \<longleftrightarrow> normalized len idx < 0 \<or> int len \<le> normalized len idx"

text \<open>A full array of three items, and the empty array, for concrete runs.\<close>

definition heap3 :: heap where
  "heap3 = \<lparr>bufs = (\<lambda>_. None)(1 \<mapsto> [int_item 10, int_item 20, int_item 30]), brk = 1\<rparr>"

definition array3 :: ItemArray where
  "array3 = \<lparr>m_alloc = 3, m_size = 3, m_data = 1\<rparr>"

definition empty_array :: ItemArray where
  "empty_array = \<lparr>m_alloc = 0, m_size = 0, m_data = 0\<rparr>"

text \<open>The same three items in a buffer with one spare cell, which holds a stale item.\<close>

definition heap4 :: heap where
  "heap4 = \<lparr>bufs = (\<lambda>_. None)(1 \<mapsto> [int_item 10, int_item 20, int_item 30, int_item 99]), brk = 1\<rparr>"

definition array4 :: ItemArray where
  "array4 = \<lparr>m_alloc = 4, m_size = 3, m_data = 1\<rparr>"

section \<open>The virtual machine seen from a native function\<close>

text \<open>
  Modelled from the spec: the predicates of \<open>Item\<close>, whose class is not part
  of the sources at hand.  Truth: nil, zero and the empty containers are false,
  everything else is true.  Callable: a function, or an array whose first
  element is a function (a callable array).
\<close>

definition isTrue :: "item \<Rightarrow> bool" where
  "isTrue x =
     (case payload x of
        FlcNil \<Rightarrow> False
      | FlcInt n \<Rightarrow> n \<noteq> 0
      | FlcRange _ _ _ _ \<Rightarrow> True
      | FlcFunc _ \<Rightarrow> True
      | FlcArray _ xs \<Rightarrow> xs \<noteq> []
      | FlcDict _ ps \<Rightarrow> ps \<noteq> [])"

definition isFunction :: "item \<Rightarrow> bool" where
  "isFunction x = (case payload x of FlcFunc _ \<Rightarrow> True | _ \<Rightarrow> False)"

definition isArray :: "item \<Rightarrow> bool" where
  "isArray x = (case payload x of FlcArray _ _ \<Rightarrow> True | _ \<Rightarrow> False)"

definition isDict :: "item \<Rightarrow> bool" where
  "isDict x = (case payload x of FlcDict _ _ \<Rightarrow> True | _ \<Rightarrow> False)"

definition isInteger :: "item \<Rightarrow> bool" where
  "isInteger x = (case payload x of FlcInt _ \<Rightarrow> True | _ \<Rightarrow> False)"

definition isNil :: "item \<Rightarrow> bool" where
  "isNil x = (case payload x of FlcNil \<Rightarrow> True | _ \<Rightarrow> False)"

definition isRange :: "item \<Rightarrow> bool" where
  "isRange x = (case payload x of FlcRange _ _ _ _ \<Rightarrow> True | _ \<Rightarrow> False)"

definition isCallable :: "item \<Rightarrow> bool" where
  "isCallable x =
     (case payload x of
        FlcFunc _ \<Rightarrow> True
      | FlcArray _ xs \<Rightarrow> (case xs of [] \<Rightarrow> False | y # _ \<Rightarrow> isFunction y)
      | _ \<Rightarrow> False)"

text \<open>
  The accessors read the payload without a check, as the source does; they are
  only used where the tag is known.  On another tag the model gives the empty
  array and zero.
\<close>

definition asArray :: "item \<Rightarrow> item list" where
  "asArray x = (case payload x of FlcArray _ xs \<Rightarrow> xs | _ \<Rightarrow> [])"

definition asInteger :: "item \<Rightarrow> int" where
  "asInteger x = (case payload x of FlcInt n \<Rightarrow> n | _ \<Rightarrow> 0)"

definition setOob :: "item \<Rightarrow> item" where
  "setOob x = Item True (payload x)"

definition resetOob :: "item \<Rightarrow> item" where
  "resetOob x = Item False (payload x)"

datatype error_code = e_inv_params | e_non_callable

text \<open>The return handlers of \<open>functional_ext.cpp\<close>, as the values of the function pointer.\<close>

datatype handler =
    h_any_next | h_all_next | h_anyp_next | h_allp_next | h_map_next | h_dolist_next
  | h_times_next | h_xmap_next | h_filter_next | h_reduce_next | h_iff_next
  | h_choice_next | h_cascade_next | h_floop_next

text \<open>
  The state a native function works on: its parameters (and which of them were
  passed by reference), its locals, register A, the installed return handler,
  the parameters pushed for the next call, the call frame waiting to be run,
  and the error raised.  \<open>world\<close> is the state of the script, which only user
  code changes; \<open>next_object\<close> is the identity the next new array will get.
  \<open>calls\<close> and \<open>evals\<close> record, in order, every frame that was run and every
  item handed to functional evaluation; no code reads them.
\<close>

record 'w vm =
  params :: "item list"
  byref :: "nat \<Rightarrow> bool"
  locals :: "item list"
  regA :: item
  ret_handler :: "handler option"
  pushed :: "item list"
  frame :: "(item \<times> item list) option"
  raised :: "error_code option"
  world :: 'w
  calls :: "(item \<times> item list) list"
  evals :: "item list"
  next_object :: nat

text \<open>
  What the machine does outside \<open>functional_ext.cpp\<close>: \<open>run_call f args w\<close> runs a call
  frame of \<open>f\<close> on \<open>args\<close> to its end and gives the returned item;
  \<open>run_eval x w\<close> evaluates \<open>x\<close> in functional context and also tells whether
  that needed a frame (\<open>functionalEval\<close> returns true) or \<open>x\<close> was an atom.
\<close>

record 'w machine =
  run_call :: "item \<Rightarrow> item list \<Rightarrow> 'w \<Rightarrow> item \<times> 'w"
  run_eval :: "item \<Rightarrow> 'w \<Rightarrow> bool \<times> item \<times> 'w"

text \<open>
  \<open>param( i )\<close> is null when there is no such parameter.  A handler reads
  \<open>params v ! i\<close> and its locals without a check, as the source dereferences
  \<open>vm->param(i)\<close> and \<open>vm->local(i)\<close>: it is installed only after the entry
  point has found the parameter and added the locals.
\<close>

definition param :: "'w vm \<Rightarrow> nat \<Rightarrow> item option" where
  "param v i = (if i < length (params v) then Some (params v ! i) else None)"

definition paramCount :: "'w vm \<Rightarrow> nat" where
  "paramCount v = length (params v)"

definition local :: "'w vm \<Rightarrow> nat \<Rightarrow> item" where
  "local v i = (if i < length (locals v) then locals v ! i else nil_item)"

definition set_local :: "nat \<Rightarrow> item \<Rightarrow> 'w vm \<Rightarrow> 'w vm" where
  "set_local i x v = v\<lparr>locals := (locals v)[i := x]\<rparr>"

definition addLocals :: "nat \<Rightarrow> 'w vm \<Rightarrow> 'w vm" where
  "addLocals n v = v\<lparr>locals := locals v @ replicate n nil_item\<rparr>"

definition returnHandler :: "handler option \<Rightarrow> 'w vm \<Rightarrow> 'w vm" where
  "returnHandler h v = v\<lparr>ret_handler := h\<rparr>"

definition retval :: "item \<Rightarrow> 'w vm \<Rightarrow> 'w vm" where
  "retval x v = v\<lparr>regA := x\<rparr>"

definition retnil :: "'w vm \<Rightarrow> 'w vm" where
  "retnil v = v\<lparr>regA := nil_item\<rparr>"

definition raiseRTError :: "error_code \<Rightarrow> 'w vm \<Rightarrow> 'w vm" where
  "raiseRTError e v = v\<lparr>raised := Some e\<rparr>"

definition pushParameter :: "item \<Rightarrow> 'w vm \<Rightarrow> 'w vm" where
  "pushParameter x v = v\<lparr>pushed := pushed v @ [x]\<rparr>"

text \<open>
  \<open>callFrame( item, n )\<close> prepares a frame of \<open>item\<close> on the last \<open>n\<close> pushed
  parameters, and fails on an item that is not callable.
\<close>

definition callFrame :: "item \<Rightarrow> nat \<Rightarrow> 'w vm \<Rightarrow> bool \<times> 'w vm" where
  "callFrame f n v =
     (if isCallable f
      then (True, v\<lparr>frame := Some (f, drop (length (pushed v) - n) (pushed v)),
                     pushed := take (length (pushed v) - n) (pushed v)\<rparr>)
      else (False, v))"

text \<open>
  \<open>functionalEval( item )\<close>.  When the evaluation needs a frame the source
  returns to the machine at once, in every function that calls it here, and finds
  the result in register A on re-entry; so the model runs the evaluation on the
  spot in both cases and passes the flag on.
\<close>

definition functionalEval :: "'w machine \<Rightarrow> item \<Rightarrow> 'w vm \<Rightarrow> bool \<times> 'w vm" where
  "functionalEval M x v =
     (case run_eval M x (world v) of
        (deferred, r, w) \<Rightarrow> (deferred, v\<lparr>regA := r, world := w, evals := evals v @ [x]\<rparr>))"

text \<open>The machine runs the waiting frame, if there is one, and puts its result in A.\<close>

definition run_frame :: "'w machine \<Rightarrow> 'w vm \<Rightarrow> 'w vm" where
  "run_frame M v =
     (case frame v of
        None \<Rightarrow> v
      | Some (f, args) \<Rightarrow>
         (case run_call M f args (world v) of
            (r, w) \<Rightarrow> v\<lparr>regA := r, world := w, frame := None, calls := calls v @ [(f, args)]\<rparr>))"

subsection \<open>all\<close>

text \<open>The \<open>for\<close> loop of \<open>core_all\<close>, entered at index \<open>i\<close>.\<close>

function all_loop :: "'w machine \<Rightarrow> item list \<Rightarrow> nat \<Rightarrow> 'w vm \<Rightarrow> 'w vm" where
  "all_loop M arr i v =
     (if i < length arr then
        (case functionalEval M (arr ! i) (set_local 0 (int_item (int i + 1)) v) of
           (deferred, v1) \<Rightarrow>
             if deferred then v1
             else if \<not> isTrue (regA v1) then retval (int_item 0) (returnHandler None v1)
             else all_loop M arr (Suc i) v1)
      else retval (int_item 1) (returnHandler None v))"
  by pat_completeness auto
termination
  by (relation "measure (\<lambda>(M, arr, i, v). length arr - i)") auto

declare all_loop.simps [simp del]

definition core_all :: "'w machine \<Rightarrow> 'w vm \<Rightarrow> 'w vm" where
  "core_all M v =
     (case param v 0 of
        None \<Rightarrow> raiseRTError e_inv_params v
      | Some i_param \<Rightarrow>
         if \<not> isArray i_param then raiseRTError e_inv_params v
         else
          (let arr = asArray i_param; count = length arr in
           if count = 0 then retval (int_item 0) v
           else all_loop M arr 0 (addLocals 1 (returnHandler (Some h_all_next) v))))"

text \<open>The \<open>while\<close> loop of \<open>core_all_next\<close>.\<close>

function all_next_loop :: "'w machine \<Rightarrow> item list \<Rightarrow> nat \<Rightarrow> 'w vm \<Rightarrow> bool \<times> 'w vm" where
  "all_next_loop M arr count v =
     (if count < length arr then
        (case functionalEval M (arr ! count) (set_local 0 (int_item (int count + 1)) v) of
           (deferred, v1) \<Rightarrow>
             if deferred then (True, v1)
             else if \<not> isTrue (regA v1) then (False, retval (int_item 0) v1)
             else all_next_loop M arr (Suc count) v1)
      else (False, retval (int_item 1) v))"
  by pat_completeness auto
termination
  by (relation "measure (\<lambda>(M, arr, count, v). length arr - count)") auto

declare all_next_loop.simps [simp del]

definition core_all_next :: "'w machine \<Rightarrow> 'w vm \<Rightarrow> bool \<times> 'w vm" where
  "core_all_next M v =
     (if \<not> isTrue (regA v) then (False, retval (int_item 0) v)
      else
       (let arr = asArray (params v ! 0);
            count = to_uint32 (asInteger (local v 0))
        in all_next_loop M arr count v))"

subsection \<open>reduce\<close>

definition core_reduce_next :: "'w machine \<Rightarrow> 'w vm \<Rightarrow> bool \<times> 'w vm" where
  "core_reduce_next M v =
     (let origin = asArray (params v ! 1);
          count = to_uint32 (asInteger (local v 0))
      in
      if count \<ge> length origin then (False, v)
      else
       (let v1 = set_local 0 (int_item (int count + 1)) v;
            v2 = pushParameter (regA v1) v1;
            v3 = pushParameter (origin ! count) v2
        in (True, snd (callFrame (params v3 ! 0) 2 v3))))"

definition core_reduce :: "'w machine \<Rightarrow> 'w vm \<Rightarrow> 'w vm" where
  "core_reduce M v =
     (case (param v 0, param v 1) of
        (Some callable, Some i_origin) \<Rightarrow>
          if \<not> isCallable callable \<or> \<not> isArray i_origin then raiseRTError e_inv_params v
          else
           (let origin = asArray i_origin;
                v0 = addLocals 1 v
            in
            case param v 2 of
              Some init \<Rightarrow>
                if length origin = 0 then retval init v0
                else
                 (let v1 = returnHandler (Some h_reduce_next) v0;
                      v2 = pushParameter init v1;
                      v3 = pushParameter (origin ! 0) v2;
                      v4 = set_local 0 (int_item 1) v3
                  in snd (callFrame (params v4 ! 0) 2 v4))
            | None \<Rightarrow>
                if length origin = 0 then retnil v0
                else if length origin = 1 then retval (origin ! 0) v0
                else
                 (let v1 = returnHandler (Some h_reduce_next) v0;
                      v2 = set_local 0 (int_item 2) v1;
                      v3 = pushParameter (origin ! 0) v2;
                      v4 = pushParameter (origin ! 1) v3
                  in snd (callFrame (params v4 ! 0) 2 v4)))
      | _ \<Rightarrow> raiseRTError e_inv_params v)"

subsection \<open>cascade\<close>

text \<open>The loops that replay the parameters \<open>1 .. paramCount - 1\<close> to the next call.\<close>

definition push_initial_params :: "'w vm \<Rightarrow> 'w vm" where
  "push_initial_params v = foldl (\<lambda>s x. pushParameter x s) v (drop 1 (params v))"

definition core_cascade_next :: "'w machine \<Rightarrow> 'w vm \<Rightarrow> bool \<times> 'w vm" where
  "core_cascade_next M v =
     (let callables = asArray (params v ! 0);
          count = to_uint32 (asInteger (local v 0))
      in
      if count \<ge> length callables then
        (if isOob (regA v)
         then (let v1 = set_local 1 (resetOob (local v 1)) v in (False, retval (local v1 1) v1))
         else (False, v))
      else
       (let (pc, v1) =
              (if isOob (regA v) then
                 (if isOob (local v 1)
                  then (paramCount v - 1, push_initial_params v)
                  else (1, pushParameter (local v 1) v))
               else (1, pushParameter (regA v) (set_local 1 (regA v) v)));
            v2 = set_local 0 (int_item (int count + 1)) v1
        in
        case callFrame (callables ! count) pc v2 of
          (ok, v3) \<Rightarrow> if \<not> ok then (False, raiseRTError e_non_callable v3) else (True, v3)))"

definition core_cascade :: "'w machine \<Rightarrow> 'w vm \<Rightarrow> 'w vm" where
  "core_cascade M v =
     (case param v 0 of
        None \<Rightarrow> raiseRTError e_inv_params v
      | Some i_callables \<Rightarrow>
         if \<not> isArray i_callables then raiseRTError e_inv_params v
         else
          (let callables = asArray i_callables in
           if length callables = 0 then retnil v
           else
            (let v1 = addLocals 2 v;
                 v2 = set_local 0 (int_item 1) v1;
                 v3 = set_local 1 (setOob (local v2 1)) v2;
                 v4 = push_initial_params v3;
                 v5 = returnHandler (Some h_cascade_next) v4
             in
             case callFrame (callables ! 0) (paramCount v - 1) v5 of
               (ok, v6) \<Rightarrow> if \<not> ok then raiseRTError e_non_callable v6 else v6)))"

subsection \<open>any\<close>

function any_loop :: "'w machine \<Rightarrow> item list \<Rightarrow> nat \<Rightarrow> 'w vm \<Rightarrow> 'w vm" where
  "any_loop M arr i v =
     (if i < length arr then
        (case functionalEval M (arr ! i) (set_local 0 (int_item (int i + 1)) v) of
           (deferred, v1) \<Rightarrow>
             if deferred then v1
             else if isTrue (regA v1) then retval (int_item 1) (returnHandler None v1)
             else any_loop M arr (Suc i) v1)
      else retval (int_item 0) (returnHandler None v))"
  by pat_completeness auto
termination
  by (relation "measure (\<lambda>(M, arr, i, v). length arr - i)") auto

declare any_loop.simps [simp del]

definition core_any :: "'w machine \<Rightarrow> 'w vm \<Rightarrow> 'w vm" where
  "core_any M v =
     (case param v 0 of
        None \<Rightarrow> raiseRTError e_inv_params v
      | Some i_param \<Rightarrow>
         if \<not> isArray i_param then raiseRTError e_inv_params v
         else any_loop M (asArray i_param) 0 (addLocals 1 (returnHandler (Some h_any_next) v)))"

function any_next_loop :: "'w machine \<Rightarrow> item list \<Rightarrow> nat \<Rightarrow> 'w vm \<Rightarrow> bool \<times> 'w vm" where
  "any_next_loop M arr count v =
     (if count < length arr then
        (case functionalEval M (arr ! count) (set_local 0 (int_item (int count + 1)) v) of
           (deferred, v1) \<Rightarrow>
             if deferred then (True, v1)
             else if isTrue (regA v1) then (False, retval (int_item 1) v1)
             else any_next_loop M arr (Suc count) v1)
      else (False, retval (int_item 0) v))"
  by pat_completeness auto
termination
  by (relation "measure (\<lambda>(M, arr, count, v). length arr - count)") auto

declare any_next_loop.simps [simp del]

definition core_any_next :: "'w machine \<Rightarrow> 'w vm \<Rightarrow> bool \<times> 'w vm" where
  "core_any_next M v =
     (if isTrue (regA v) then (False, retval (int_item 1) v)
      else any_next_loop M (asArray (params v ! 0)) (to_uint32 (asInteger (local v 0))) v)"

subsection \<open>anyp and allp\<close>

text \<open>
  The variadic forms run the same loops over the parameters themselves.
  \<open>core_allp\<close> installs its handler before it looks at the parameter count.
\<close>

definition core_anyp :: "'w machine \<Rightarrow> 'w vm \<Rightarrow> 'w vm" where
  "core_anyp M v = any_loop M (params v) 0 (addLocals 1 (returnHandler (Some h_anyp_next) v))"

definition core_anyp_next :: "'w machine \<Rightarrow> 'w vm \<Rightarrow> bool \<times> 'w vm" where
  "core_anyp_next M v =
     (if isTrue (regA v) then (False, retval (int_item 1) v)
      else any_next_loop M (params v) (to_uint32 (asInteger (local v 0))) v)"

definition core_allp :: "'w machine \<Rightarrow> 'w vm \<Rightarrow> 'w vm" where
  "core_allp M v =
     (let v1 = addLocals 1 (returnHandler (Some h_allp_next) v) in
      if paramCount v = 0 then retval (int_item 0) v1
      else all_loop M (params v) 0 v1)"

definition core_allp_next :: "'w machine \<Rightarrow> 'w vm \<Rightarrow> bool \<times> 'w vm" where
  "core_allp_next M v =
     (if \<not> isTrue (regA v) then (False, retval (int_item 0) v)
      else all_next_loop M (params v) (to_uint32 (asInteger (local v 0))) v)"

subsection \<open>map, xmap, filter and dolist\<close>

text \<open>
  \<open>new CoreArray\<close> gives an array object with a new identity;
  \<open>mapped->append\<close> changes the object that a local holds.
\<close>

definition new_array :: "'w vm \<Rightarrow> item \<times> 'w vm" where
  "new_array v = (Item False (FlcArray (next_object v) []), v\<lparr>next_object := Suc (next_object v)\<rparr>)"

definition append_item :: "item \<Rightarrow> item \<Rightarrow> item" where
  "append_item a x =
     (case payload a of FlcArray k xs \<Rightarrow> Item (isOob a) (FlcArray k (xs @ [x])) | _ \<Rightarrow> a)"

definition core_map_next :: "'w machine \<Rightarrow> 'w vm \<Rightarrow> bool \<times> 'w vm" where
  "core_map_next M v =
     (let origin = asArray (params v ! 1);
          count = to_uint32 (asInteger (local v 0));
          v1 = (if \<not> isOob (regA v) then set_local 1 (append_item (local v 1) (regA v)) v else v)
      in
      if count < length origin then
        (let v2 = set_local 0 (int_item (int count + 1)) v1;
             v3 = pushParameter (origin ! count) v2
         in (True, snd (callFrame (params v3 ! 0) 1 v3)))
      else (False, retval (local v1 1) v1))"

definition core_map :: "'w machine \<Rightarrow> 'w vm \<Rightarrow> 'w vm" where
  "core_map M v =
     (case (param v 0, param v 1) of
        (Some callable, Some i_origin) \<Rightarrow>
          if \<not> isCallable callable \<or> \<not> isArray i_origin then raiseRTError e_inv_params v
          else
           (let origin = asArray i_origin in
            case new_array v of
              (mapped, v0) \<Rightarrow>
                if length origin > 0 then
                  (let v1 = addLocals 2 (returnHandler (Some h_map_next) v0);
                       v2 = set_local 0 (int_item 1) v1;
                       v3 = set_local 1 mapped v2;
                       v4 = pushParameter (origin ! 0) v3
                   in snd (callFrame (params v4 ! 0) 1 v4))
                else retval mapped v0)
      | _ \<Rightarrow> raiseRTError e_inv_params v)"

definition core_xmap_next :: "'w machine \<Rightarrow> 'w vm \<Rightarrow> bool \<times> 'w vm" where
  "core_xmap_next M v =
     (let origin = asArray (params v ! 1);
          count = to_uint32 (asInteger (local v 0))
      in
      if count < length origin then
        (if asInteger (local v 2) = 1 then
           (let v1 = (if \<not> isOob (regA v) then set_local 1 (append_item (local v 1) (regA v)) v else v);
                v2 = set_local 0 (int_item (int count + 1)) v1;
                v3 = set_local 2 (int_item 0) v2
            in
            case functionalEval M (origin ! count) v3 of
              (deferred, v4) \<Rightarrow>
                if deferred then (True, v4)
                else
                 (let v5 = set_local 2 (int_item 1) v4;
                      v6 = pushParameter (regA v5) v5
                  in (True, snd (callFrame (params v6 ! 0) 1 v6))))
         else
           (let v5 = set_local 2 (int_item 1) v;
                v6 = pushParameter (regA v5) v5
            in (True, snd (callFrame (params v6 ! 0) 1 v6))))
      else
        (let v1 = (if \<not> isOob (regA v) then set_local 1 (append_item (local v 1) (regA v)) v else v)
         in (False, retval (local v1 1) v1)))"

definition core_xmap :: "'w machine \<Rightarrow> 'w vm \<Rightarrow> 'w vm" where
  "core_xmap M v =
     (case (param v 0, param v 1) of
        (Some callable, Some i_origin) \<Rightarrow>
          if \<not> isCallable callable \<or> \<not> isArray i_origin then raiseRTError e_inv_params v
          else
           (let origin = asArray i_origin in
            case new_array v of
              (mapped, v0) \<Rightarrow>
                if length origin > 0 then
                  (let v1 = addLocals 3 (returnHandler (Some h_xmap_next) v0);
                       v2 = set_local 0 (int_item 1) v1;
                       v3 = set_local 1 mapped v2;
                       v4 = set_local 2 (int_item 0) v3
                   in
                   case functionalEval M (origin ! 0) v4 of
                     (deferred, v5) \<Rightarrow>
                       if deferred then v5
                       else
                        (let v6 = set_local 2 (int_item 1) v5;
                             v7 = pushParameter (regA v6) v6
                         in snd (callFrame (params v7 ! 0) 1 v7)))
                else retval mapped v0)
      | _ \<Rightarrow> raiseRTError e_inv_params v)"

definition core_filter_next :: "'w machine \<Rightarrow> 'w vm \<Rightarrow> bool \<times> 'w vm" where
  "core_filter_next M v =
     (let origin = asArray (params v ! 1);
          count = to_uint32 (asInteger (local v 1));
          v1 = (if isTrue (regA v) then set_local 0 (append_item (local v 0) (origin ! (count - 1))) v else v)
      in
      if count = length origin then (False, retval (local v1 0) v1)
      else
       (let v2 = set_local 1 (int_item (int count + 1)) v1;
            v3 = pushParameter (origin ! count) v2
        in (True, snd (callFrame (params v3 ! 0) 1 v3))))"

definition core_filter :: "'w machine \<Rightarrow> 'w vm \<Rightarrow> 'w vm" where
  "core_filter M v =
     (case (param v 0, param v 1) of
        (Some callable, Some i_origin) \<Rightarrow>
          if \<not> isCallable callable \<or> \<not> isArray i_origin then raiseRTError e_inv_params v
          else
           (let origin = asArray i_origin in
            case new_array v of
              (mapped, v0) \<Rightarrow>
                if length origin > 0 then
                  (let v1 = addLocals 2 (returnHandler (Some h_filter_next) v0);
                       v2 = set_local 0 mapped v1;
                       v3 = set_local 1 (int_item 1) v2;
                       v4 = pushParameter (origin ! 0) v3
                   in snd (callFrame (params v4 ! 0) 1 v4))
                else retval mapped v0)
      | _ \<Rightarrow> raiseRTError e_inv_params v)"

definition core_dolist_next :: "'w machine \<Rightarrow> 'w vm \<Rightarrow> bool \<times> 'w vm" where
  "core_dolist_next M v =
     (let origin = asArray (params v ! 1);
          count = to_uint32 (asInteger (local v 0));
          call = (\<lambda>u. (let u1 = set_local 0 (int_item (int count + 1)) u;
                            u2 = set_local 1 (int_item 1) u1;
                            u3 = pushParameter (regA u2) u2
                        in (True, snd (callFrame (params u3 ! 0) 1 u3))))
      in
      if count \<ge> length origin then (False, v)
      else if asInteger (local v 1) = 1 then
        (if \<not> isTrue (regA v) then (False, v)
         else
          (case functionalEval M (origin ! count) (set_local 1 (int_item 0) v) of
             (deferred, v1) \<Rightarrow> if deferred then (True, v1) else call v1))
      else call v)"

definition core_dolist :: "'w machine \<Rightarrow> 'w vm \<Rightarrow> 'w vm" where
  "core_dolist M v =
     (case (param v 0, param v 1) of
        (Some callable, Some i_origin) \<Rightarrow>
          if \<not> isCallable callable \<or> \<not> isArray i_origin then raiseRTError e_inv_params v
          else
           (let origin = asArray i_origin in
            if length origin \<noteq> 0 then
              (let v1 = addLocals 2 (returnHandler (Some h_dolist_next) v);
                   v2 = set_local 0 (int_item 0) v1;
                   v3 = set_local 1 (int_item 0) v2
               in
               case functionalEval M (origin ! 0) v3 of
                 (deferred, v4) \<Rightarrow>
                   if deferred then v4
                   else
                    (let v5 = set_local 0 (int_item 1) v4;
                         v6 = set_local 1 (int_item 1) v5;
                         v7 = pushParameter (regA v6) v6
                     in snd (callFrame (params v7 ! 0) 1 v7)))
            else v)
      | _ \<Rightarrow> raiseRTError e_inv_params v)"

subsection \<open>iff, choice, lit and firstOf\<close>

definition core_iff_next :: "'w machine \<Rightarrow> 'w vm \<Rightarrow> bool \<times> 'w vm" where
  "core_iff_next M v =
     (let v1 = returnHandler None v in
      if isTrue (regA v1) then functionalEval M (params v1 ! 1) v1
      else
       (case param v1 2 of
          Some i_ifFalse \<Rightarrow> functionalEval M i_ifFalse v1
        | None \<Rightarrow> (False, retnil v1)))"

definition core_iff :: "'w machine \<Rightarrow> 'w vm \<Rightarrow> 'w vm" where
  "core_iff M v =
     (case (param v 0, param v 1) of
        (Some i_cond, Some i_ifTrue) \<Rightarrow>
          (case functionalEval M i_cond (returnHandler (Some h_iff_next) v) of
             (deferred, v1) \<Rightarrow>
               if deferred then v1
               else
                (let v2 = returnHandler None v1 in
                 if isTrue (regA v2) then snd (functionalEval M i_ifTrue v2)
                 else
                  (case param v 2 of
                     Some i_ifFalse \<Rightarrow> snd (functionalEval M i_ifFalse v2)
                   | None \<Rightarrow> retnil v2)))
      | _ \<Rightarrow> raiseRTError e_inv_params v)"

definition core_choice_next :: "'w machine \<Rightarrow> 'w vm \<Rightarrow> bool \<times> 'w vm" where
  "core_choice_next M v =
     (if isTrue (regA v) then (False, retval (params v ! 1) v)
      else
       (case param v 2 of
          Some i_ifFalse \<Rightarrow> (False, retval i_ifFalse v)
        | None \<Rightarrow> (False, retnil v)))"

definition core_choice :: "'w machine \<Rightarrow> 'w vm \<Rightarrow> 'w vm" where
  "core_choice M v =
     (case (param v 0, param v 1) of
        (Some i_cond, Some i_ifTrue) \<Rightarrow>
          (case functionalEval M i_cond (returnHandler (Some h_choice_next) v) of
             (deferred, v1) \<Rightarrow>
               if deferred then v1
               else
                (let v2 = returnHandler None v1 in
                 if isTrue (regA v2) then retval i_ifTrue v2
                 else
                  (case param v 2 of
                     Some i_ifFalse \<Rightarrow> retval i_ifFalse v2
                   | None \<Rightarrow> retnil v2)))
      | _ \<Rightarrow> raiseRTError e_inv_params v)"

definition core_lit :: "'w machine \<Rightarrow> 'w vm \<Rightarrow> 'w vm" where
  "core_lit M v =
     (case param v 0 of
        None \<Rightarrow> raiseRTError e_inv_params v
      | Some i_cond \<Rightarrow> v\<lparr>regA := i_cond\<rparr>)"

text \<open>The \<open>while\<close> loop of \<open>core_firstof\<close> over the parameters from \<open>count\<close> on.\<close>

function firstof_loop :: "nat \<Rightarrow> 'w vm \<Rightarrow> 'w vm" where
  "firstof_loop count v =
     (case param v count of
        None \<Rightarrow> retnil v
      | Some i_elem \<Rightarrow> if isTrue i_elem then retval i_elem v else firstof_loop (Suc count) v)"
  by pat_completeness auto
termination
  by (relation "measure (\<lambda>(count, v). length (params v) - count)")
     (auto simp: param_def split: if_splits)

declare firstof_loop.simps [simp del]

definition core_firstof :: "'w machine \<Rightarrow> 'w vm \<Rightarrow> 'w vm" where
  "core_firstof M v = firstof_loop 0 v"

subsection \<open>floop\<close>

text \<open>
  \<open>recallFrame\<close> asks the machine to enter the handler again without a call in
  between: the handler returns true and leaves no frame.
\<close>

definition core_floop_next :: "'w machine \<Rightarrow> 'w vm \<Rightarrow> bool \<times> 'w vm" where
  "core_floop_next M v =
     (let callables = asArray (params v ! 0);
          count0 = to_uint32 (int (to_uint32 (asInteger (local v 0))) + 1)
      in
      if isInteger (regA v) \<and> isOob (regA v) \<and> asInteger (regA v) = 0
      then (False, retnil (returnHandler None v))
      else
       (let count1 = (if isInteger (regA v) \<and> isOob (regA v) \<and> asInteger (regA v) = 1 then 0 else count0);
            count = (if count1 \<ge> length callables then 0 else count1);
            v1 = set_local 0 (int_item (int count)) v
        in
        case callFrame (callables ! count) 0 v1 of
          (ok, v2) \<Rightarrow> if \<not> ok then (True, v2\<lparr>regA := callables ! count\<rparr>) else (True, v2)))"

definition core_floop :: "'w machine \<Rightarrow> 'w vm \<Rightarrow> 'w vm" where
  "core_floop M v =
     (case param v 0 of
        None \<Rightarrow> raiseRTError e_inv_params v
      | Some i_callables \<Rightarrow>
         if \<not> isArray i_callables then raiseRTError e_inv_params v
         else
          (let callables = asArray i_callables in
           if length callables = 0 then v
           else
            (let v1 = addLocals 1 v;
                 v2 = set_local 0 (int_item (int (length callables))) v1;
                 v3 = returnHandler (Some h_floop_next) v2;
                 v4 = v3\<lparr>regA := nil_item\<rparr>
             in snd (core_floop_next M v4))))"

subsection \<open>times\<close>

definition asRangeStart :: "item \<Rightarrow> int" where
  "asRangeStart x = (case payload x of FlcRange s _ _ _ \<Rightarrow> s | _ \<Rightarrow> 0)"

definition asRangeEnd :: "item \<Rightarrow> int" where
  "asRangeEnd x = (case payload x of FlcRange _ e _ _ \<Rightarrow> e | _ \<Rightarrow> 0)"

definition asRangeStep :: "item \<Rightarrow> int" where
  "asRangeStep x = (case payload x of FlcRange _ _ st _ \<Rightarrow> st | _ \<Rightarrow> 0)"

definition asRangeIsOpen :: "item \<Rightarrow> bool" where
  "asRangeIsOpen x = (case payload x of FlcRange _ _ _ opn \<Rightarrow> opn | _ \<Rightarrow> False)"

definition range_item :: "int \<Rightarrow> int \<Rightarrow> int \<Rightarrow> bool \<Rightarrow> item" where
  "range_item s e st opn = Item False (FlcRange s e st opn)"

text \<open>Integers are the only numbers of the model, so \<open>isOrdinal\<close> is \<open>isInteger\<close>.\<close>

definition isOrdinal :: "item \<Rightarrow> bool" where
  "isOrdinal x = isInteger x"

definition forceInteger :: "item \<Rightarrow> int" where
  "forceInteger x = asInteger x"

definition set_elems :: "item \<Rightarrow> item list \<Rightarrow> item" where
  "set_elems a xs = (case payload a of FlcArray k _ \<Rightarrow> Item (isOob a) (FlcArray k xs) | _ \<Rightarrow> a)"

definition is_oob_int :: "item \<Rightarrow> int \<Rightarrow> bool" where
  "is_oob_int x n \<longleftrightarrow> isOob x \<and> isInteger x \<and> asInteger x = n"

definition core_times_next :: "'w machine \<Rightarrow> 'w vm \<Rightarrow> bool \<times> 'w vm" where
  "core_times_next M v =
     (let var = params v ! 1;
          sequence = asArray (params v ! 2);
          range0 = local v 0;
          start0 = asRangeStart range0;
          id0 = to_uint32 (asInteger (local v 1));
          (currentItemID, start, v1) =
            (if id0 = length sequence \<or> is_oob_int (regA v) 1 then
               (let start' = to_int32 (start0 + asRangeStep range0);
                    va = (if byref v 1 then v\<lparr>params := (params v)[1 := int_item start']\<rparr> else v);
                    vb = set_local 0 (range_item start' (asRangeEnd range0) (asRangeStep range0) False) va
                in (0, start', vb))
             else (id0, start0, v));
          range = local v1 0
      in
      if (asRangeStep range > 0 \<and> start \<ge> asRangeEnd range) \<or>
         (asRangeStep range < 0 \<and> start < asRangeEnd range) \<or>
         is_oob_int (regA v1) 0
      then (False, v1\<lparr>regA := int_item (asRangeStart range)\<rparr>)
      else
       (let current = sequence ! currentItemID;
            v2 = set_local 1 (int_item (int currentItemID + 1)) v1
        in
        if \<not> isCallable current then (False, raiseRTError e_inv_params v2)
        else
         (let v3 =
               (if \<not> byref v2 1 then
                  (if isArray current then
                     (let curArray = asArray current; varID = forceInteger var in
                      if varID \<le> 0 then
                        (let u1 = foldl (\<lambda>s x. pushParameter x s) v2 (drop 1 curArray);
                             u2 = pushParameter (int_item start) u1
                         in snd (callFrame (curArray ! 0) (length curArray) u2))
                      else
                        (let current' =
                               (if length curArray > to_uint32 varID
                                then set_elems current (curArray[to_uint32 varID := int_item start])
                                else current);
                             u1 = v2\<lparr>params := (params v2)[2 :=
                                     set_elems (params v2 ! 2) (sequence[currentItemID := current'])]\<rparr>
                         in snd (callFrame current' 0 u1)))
                   else
                     (let u1 = pushParameter (int_item start) v2
                      in snd (callFrame current 1 u1)))
                else snd (callFrame current 0 v2))
          in (True, set_local 1 (int_item (int currentItemID + 1)) v3))))"

definition core_times :: "'w machine \<Rightarrow> 'w vm \<Rightarrow> 'w vm" where
  "core_times M v =
     (case (param v 0, param v 1, param v 2) of
        (Some i_count, Some i_var, Some i_sequence) \<Rightarrow>
          if \<not> (isRange i_count \<or> isOrdinal i_count) \<or>
             \<not> (byref v 1 \<or> isNil i_var \<or> isOrdinal i_var) \<or>
             \<not> isArray i_sequence
          then raiseRTError e_inv_params v
          else if isRange i_count \<and> asRangeIsOpen i_count then raiseRTError e_inv_params v
          else
           (let (start, end, step) =
                  (if isRange i_count then
                     (asRangeStart i_count, asRangeEnd i_count,
                      (if asRangeStep i_count = 0
                       then (if asRangeStart i_count > asRangeEnd i_count then - 1 else 1)
                       else asRangeStep i_count))
                   else
                     (0, to_int32 (forceInteger i_count),
                      (if to_int32 (forceInteger i_count) < 0 then - 1 else 1)));
                sequence = asArray i_sequence
            in
            if start = end \<or>
               (start < end \<and> (step < 0 \<or> to_int32 (start + step) > end)) \<or>
               (start > end \<and> (step > 0 \<or> to_int32 (start + step) < end)) \<or>
               length sequence = 0
            then retval (int_item start) v
            else
             (let v1 = returnHandler (Some h_times_next) v;
                  v2 = addLocals 2 v1;
                  v3 = set_local 0 (range_item start end step False) v2;
                  v4 = set_local 1 (int_item 0) v3;
                  v5 = v4\<lparr>regA := nil_item\<rparr>
              in if byref v5 1 then v5\<lparr>params := (params v5)[1 := int_item start]\<rparr> else v5))
      | _ \<Rightarrow> raiseRTError e_inv_params v)"

section \<open>The trampoline\<close>

text \<open>The function behind each handler value.\<close>

definition call_handler :: "handler \<Rightarrow> 'w machine \<Rightarrow> 'w vm \<Rightarrow> bool \<times> 'w vm" where
  "call_handler h M v =
     (case h of
        h_any_next \<Rightarrow> core_any_next M v
      | h_all_next \<Rightarrow> core_all_next M v
      | h_anyp_next \<Rightarrow> core_anyp_next M v
      | h_allp_next \<Rightarrow> core_allp_next M v
      | h_map_next \<Rightarrow> core_map_next M v
      | h_dolist_next \<Rightarrow> core_dolist_next M v
      | h_times_next \<Rightarrow> core_times_next M v
      | h_xmap_next \<Rightarrow> core_xmap_next M v
      | h_filter_next \<Rightarrow> core_filter_next M v
      | h_reduce_next \<Rightarrow> core_reduce_next M v
      | h_iff_next \<Rightarrow> core_iff_next M v
      | h_choice_next \<Rightarrow> core_choice_next M v
      | h_cascade_next \<Rightarrow> core_cascade_next M v
      | h_floop_next \<Rightarrow> core_floop_next M v)"

text \<open>
  What the machine does once a native function has returned to it.  An error
  ends the call.  With no handler installed the call is over and A holds its
  value.  Otherwise the machine runs the waiting frame, if any, and enters the
  handler; a handler that returns false is not entered again.  \<open>floop\<close> may go
  on for ever, so the number of handler entries is bounded by the first
  argument, and \<open>None\<close> says that the bound was reached with the call still
  under way.
\<close>

fun resume :: "nat \<Rightarrow> 'w machine \<Rightarrow> 'w vm \<Rightarrow> 'w vm option" where
  "resume 0 M v = (if raised v \<noteq> None \<or> ret_handler v = None then Some v else None)"
| "resume (Suc n) M v =
     (if raised v \<noteq> None then Some v
      else case ret_handler v of
             None \<Rightarrow> Some v
           | Some h \<Rightarrow>
              (case call_handler h M (run_frame M v) of
                 (again, v1) \<Rightarrow> if again then resume n M v1 else Some (returnHandler None v1)))"

section \<open>Deep equality\<close>

text \<open>
  Modelled from the spec: \<open>Item::operator==\<close>, the scalar equality that the
  sources at hand only use.  Scalars are equal by value, arrays and
  dictionaries by identity.
\<close>

definition same_item :: "item \<Rightarrow> item \<Rightarrow> bool" where
  "same_item a b =
     (case (payload a, payload b) of
        (FlcNil, FlcNil) \<Rightarrow> True
      | (FlcInt m, FlcInt n) \<Rightarrow> m = n
      | (FlcRange s e st opn, FlcRange s' e' st' opn') \<Rightarrow> s = s' \<and> e = e' \<and> st = st' \<and> opn = opn'
      | (FlcFunc j, FlcFunc k) \<Rightarrow> j = k
      | (FlcArray j _, FlcArray k _) \<Rightarrow> j = k
      | (FlcDict j _, FlcDict k _) \<Rightarrow> j = k
      | _ \<Rightarrow> False)"

definition asDict :: "item \<Rightarrow> (item \<times> item) list" where
  "asDict x = (case payload x of FlcDict _ ps \<Rightarrow> ps | _ \<Rightarrow> [])"

definition object_id :: "item \<Rightarrow> nat" where
  "object_id x = (case payload x of FlcArray k _ \<Rightarrow> k | FlcDict k _ \<Rightarrow> k | _ \<Rightarrow> 0)"

text \<open>
  \<open>internal_eq\<close>, with the ordering of the machine, \<open>vm->compareItems\<close>, as the
  argument \<open>cmp\<close>.  The result is the truth value and the identities of the
  dictionaries that \<open>delete d1; delete d2\<close> destroyed, in order.  The loop over
  two dictionaries takes an iterator to the first pair of each and never moves
  it, so it may run for ever: the number of nested calls and of turns of that
  loop is bounded by the second argument, and \<open>None\<close> says that the bound was
  reached.  Reading a pair through an invalid iterator is \<open>None\<close> as well.
\<close>

fun internal_eq :: "(item \<Rightarrow> item \<Rightarrow> int) \<Rightarrow> nat \<Rightarrow> item \<Rightarrow> item \<Rightarrow> (bool \<times> nat list) option"
and eq_arrays :: "(item \<Rightarrow> item \<Rightarrow> int) \<Rightarrow> nat \<Rightarrow> item list \<Rightarrow> item list \<Rightarrow> (bool \<times> nat list) option"
and eq_dicts ::
  "(item \<Rightarrow> item \<Rightarrow> int) \<Rightarrow> nat \<Rightarrow> nat \<Rightarrow> (item \<times> item) list \<Rightarrow> nat \<Rightarrow> (item \<times> item) list \<Rightarrow>
     (bool \<times> nat list) option"
where
  "internal_eq cmp 0 first second = None"
| "internal_eq cmp (Suc n) first second =
     (if same_item first second \<or> cmp first second = 0 then Some (True, [])
      else if isArray first \<and> isArray second then
        (if length (asArray first) \<noteq> length (asArray second) then Some (False, [])
         else eq_arrays cmp n (asArray first) (asArray second))
      else if isDict first \<and> isDict second then
        (if length (asDict first) \<noteq> length (asDict second) then Some (False, [])
         else eq_dicts cmp n (object_id first) (asDict first) (object_id second) (asDict second))
      else Some (False, []))"
| "eq_arrays cmp n [] ys = Some (True, [])"
| "eq_arrays cmp n (x # xs) [] = None"
| "eq_arrays cmp n (x # xs) (y # ys) =
     (case internal_eq cmp n x y of
        None \<Rightarrow> None
      | Some (b, del) \<Rightarrow>
          if \<not> b then Some (False, del)
          else (case eq_arrays cmp n xs ys of
                  None \<Rightarrow> None
                | Some (b', del') \<Rightarrow> Some (b', del @ del')))"
| "eq_dicts cmp 0 d1 ps d2 qs = None"
| "eq_dicts cmp (Suc n) d1 [] d2 qs = Some (True, [d1, d2])"
| "eq_dicts cmp (Suc n) d1 (p # ps) d2 [] = None"
| "eq_dicts cmp (Suc n) d1 (p # ps) d2 (q # qs) =
     (case internal_eq cmp n (fst p) (fst q) of
        None \<Rightarrow> None
      | Some (bk, delk) \<Rightarrow>
          if \<not> bk then Some (False, delk @ [d1, d2])
          else (case internal_eq cmp n (snd p) (snd q) of
                  None \<Rightarrow> None
                | Some (bv, delv) \<Rightarrow>
                    if \<not> bv then Some (False, delk @ delv @ [d1, d2])
                    else (case eq_dicts cmp n d1 (p # ps) d2 (q # qs) of
                            None \<Rightarrow> None
                          | Some (b, del) \<Rightarrow> Some (b, delk @ delv @ del))))"

text \<open>\<open>core_eq\<close>: the value returned, and the dictionaries destroyed on the way.\<close>

definition core_eq :: "(item \<Rightarrow> item \<Rightarrow> int) \<Rightarrow> nat \<Rightarrow> 'w vm \<Rightarrow> ('w vm \<times> nat list) option" where
  "core_eq cmp n v =
     (case (param v 0, param v 1) of
        (Some first, Some second) \<Rightarrow>
          (case internal_eq cmp n first second of
             None \<Rightarrow> None
           | Some (b, del) \<Rightarrow> Some (retval (int_item (if b then 1 else 0)) v, del))
      | _ \<Rightarrow> Some (raiseRTError e_inv_params v, []))"

text \<open>An ordering that tells apart exactly the items that \<open>same_item\<close> tells apart.\<close>

definition identity_compare :: "item \<Rightarrow> item \<Rightarrow> int" where
  "identity_compare a b = (if same_item a b then 0 else 1)"

abbreviation dict_item :: "nat \<Rightarrow> (item \<times> item) list \<Rightarrow> item" where
  "dict_item k ps \<equiv> Item False (FlcDict k ps)"

section \<open>ItemList\<close>

text \<open>
  Modelled from the spec: \<open>ItemList::erase\<close> and \<open>ItemList::notifyDeletion\<close>.
  The header \<open>itemlist.h\<close> declares them; their bodies are not among the sources
  at hand.  A list is its chain of nodes from head to tail, each node known by
  its address and holding one item, and the registry of its live iterators,
  each with the node it is positioned on, or \<open>None\<close> when it is invalid.
\<close>

record ItemList =
  chain :: "(nat \<times> item) list"
  m_iters :: "(nat \<times> nat option) list"

text \<open>The node after \<open>elem\<close> in the chain (\<open>elem->next()\<close>), if any.\<close>

fun next_of :: "(nat \<times> item) list \<Rightarrow> nat \<Rightarrow> nat option" where
  "next_of [] elem = None"
| "next_of [p] elem = None"
| "next_of (p # q # ch) elem = (if fst p = elem then Some (fst q) else next_of (q # ch) elem)"

text \<open>
  Every iterator positioned on the erased node is repositioned to its
  successor, or marked invalid if there is none.
\<close>

definition notifyDeletion :: "nat \<Rightarrow> ItemList \<Rightarrow> ItemList" where
  "notifyDeletion elem l =
     l\<lparr>m_iters := map (\<lambda>(it, pos). if pos = Some elem then (it, next_of (chain l) elem) else (it, pos))
                     (m_iters l)\<rparr>"

text \<open>
  \<open>erase( elem )\<close> removes the node and returns the node that now occupies its
  position, or none if it was the tail; the iterators are notified in the same
  step.
\<close>

definition erase :: "ItemList \<Rightarrow> nat \<Rightarrow> nat option \<times> ItemList" where
  "erase l elem =
     (next_of (chain l) elem,
      (notifyDeletion elem l)\<lparr>chain := filter (\<lambda>p. fst p \<noteq> elem) (chain l)\<rparr>)"

text \<open>The iterators of a list that are positioned on a node.\<close>

definition iterators_on :: "ItemList \<Rightarrow> nat \<Rightarrow> nat list" where
  "iterators_on l elem = map fst (filter (\<lambda>p. snd p = Some elem) (m_iters l))"

text \<open>A list of three nodes with three iterators, two of them on node \<open>20\<close>.\<close>

definition list3 :: ItemList where
  "list3 = \<lparr>chain = [(10, int_item 1), (20, int_item 2), (30, int_item 3)],
            m_iters = [(1, Some 20), (2, Some 10), (3, Some 20)]\<rparr>"

section \<open>The contracts in the words of the specification\<close>

text \<open>
  \<open>all\<close> over a non-empty sequence: the elements are evaluated from the left;
  the first one that evaluates to false ends the run with false, and nothing
  after it is evaluated; true is the result when every element evaluated to
  true.  The function gives the result, the elements that were evaluated, in
  order, and the state of the script afterwards.
\<close>

fun all_spec :: "'w machine \<Rightarrow> item list \<Rightarrow> 'w \<Rightarrow> bool \<times> item list \<times> 'w" where
  "all_spec M [] w = (True, [], w)"
| "all_spec M (x # xs) w =
     (case run_eval M x w of
        (deferred, r, w1) \<Rightarrow>
          if isTrue r
          then (case all_spec M xs w1 of (b, es, w2) \<Rightarrow> (b, x # es, w2))
          else (False, [x], w1))"

text \<open>Until the call is over: the step of \<open>resume\<close> after the handler has returned.\<close>

definition finish :: "nat \<Rightarrow> 'w machine \<Rightarrow> bool \<times> 'w vm \<Rightarrow> 'w vm option" where
  "finish n M r = (case r of (again, v1) \<Rightarrow> if again then resume n M v1 else Some (returnHandler None v1))"

text \<open>A native function is entered with no locals, no handler, no frame and no error.\<close>

definition entered :: "'w vm \<Rightarrow> bool" where
  "entered v \<longleftrightarrow> locals v = [] \<and> ret_handler v = None \<and> frame v = None \<and> raised v = None \<and> pushed v = []"

text \<open>The state in which the machine enters a native function called on \<open>ps\<close>.\<close>

definition call_with :: "item list \<Rightarrow> 'w \<Rightarrow> 'w vm" where
  "call_with ps w =
     \<lparr>params = ps, byref = (\<lambda>_. False), locals = [], regA = nil_item, ret_handler = None,
      pushed = [], frame = None, raised = None, world = w, calls = [], evals = [], next_object = 1\<rparr>"

subsection \<open>A small script to run the combinators on\<close>

text \<open>
  Four functions: \<open>add\<close> (function 0) sums its integer arguments, \<open>square\<close>
  (function 1) squares its argument, \<open>sqrt\<close> (function 2) gives the integer
  root of a perfect square, and \<open>decline\<close> (function 3) returns an out-of-band
  nil.  The state of the script counts the calls and evaluations made.  Every
  item evaluates to itself, as an atom does.
\<close>

abbreviation fn :: "nat \<Rightarrow> item" where
  "fn k \<equiv> Item False (FlcFunc k)"

abbreviation arr_item :: "nat \<Rightarrow> item list \<Rightarrow> item" where
  "arr_item k xs \<equiv> Item False (FlcArray k xs)"

fun root_from :: "nat \<Rightarrow> nat \<Rightarrow> nat \<Rightarrow> nat" where
  "root_from 0 k n = k"
| "root_from (Suc fuel) k n = (if n \<le> k * k then k else root_from fuel (Suc k) n)"

definition script_call :: "item \<Rightarrow> item list \<Rightarrow> nat \<Rightarrow> item \<times> nat" where
  "script_call f args w =
     (case payload f of
        FlcFunc k \<Rightarrow>
          (if k = 0 then (int_item (sum_list (map asInteger args)), Suc w)
           else if k = 1 then (int_item (asInteger (hd args) * asInteger (hd args)), Suc w)
           else if k = 2 then (int_item (int (root_from (nat (asInteger (hd args))) 0 (nat (asInteger (hd args))))), Suc w)
           else (Item True FlcNil, Suc w))
      | _ \<Rightarrow> (nil_item, Suc w))"

definition script :: "nat machine" where
  "script = \<lparr>run_call = script_call, run_eval = (\<lambda>x w. (False, x, Suc w))\<rparr>"

text \<open>
  \<open>reduce\<close>: a left fold.  With \<open>init\<close> it folds \<open>init\<close> and then every element;
  without, it starts from the first element and folds the rest, so that the
  first call is on the first two elements; on the empty sequence it gives
  \<open>init\<close>, or nil.  The function gives the result, the calls of \<open>f\<close> in order,
  and the state of the script afterwards.
\<close>

fun fold_calls ::
  "'w machine \<Rightarrow> item \<Rightarrow> item \<Rightarrow> item list \<Rightarrow> 'w \<Rightarrow> item \<times> (item \<times> item list) list \<times> 'w" where
  "fold_calls M f acc [] w = (acc, [], w)"
| "fold_calls M f acc (x # xs) w =
     (case run_call M f [acc, x] w of
        (r, w1) \<Rightarrow> (case fold_calls M f r xs w1 of (res, cs, w2) \<Rightarrow> (res, (f, [acc, x]) # cs, w2)))"

definition reduce_spec ::
  "'w machine \<Rightarrow> item \<Rightarrow> item list \<Rightarrow> item option \<Rightarrow> 'w \<Rightarrow> item \<times> (item \<times> item list) list \<times> 'w" where
  "reduce_spec M f seq init w =
     (case init of
        Some i \<Rightarrow> fold_calls M f i seq w
      | None \<Rightarrow> (case seq of [] \<Rightarrow> (nil_item, [], w) | x # xs \<Rightarrow> fold_calls M f x xs w))"

text \<open>
  \<open>cascade\<close>: the stages are called in order.  \<open>inp\<close> is the input of the next
  stage, at first the arguments of \<open>cascade\<close>, and \<open>acc\<close> the last accepted
  value, if any.  A stage that returns an out-of-band value declines: its
  result is dropped and the next stage gets the same input.  Otherwise the
  result is accepted and becomes the sole argument of the next stage.
\<close>

fun cascade_spec ::
  "'w machine \<Rightarrow> item list \<Rightarrow> item list \<Rightarrow> item option \<Rightarrow> 'w \<Rightarrow>
     item option \<times> (item \<times> item list) list \<times> 'w" where
  "cascade_spec M [] inp acc w = (acc, [], w)"
| "cascade_spec M (f # fs) inp acc w =
     (case run_call M f inp w of
        (r, w1) \<Rightarrow>
          (case (if isOob r then cascade_spec M fs inp acc w1 else cascade_spec M fs [r] (Some r) w1) of
             (res, cs, w2) \<Rightarrow> (res, (f, inp) # cs, w2)))"

section \<open>Invariants of the suspended combinators\<close>

text \<open>\<open>all\<close> between two evaluations.\<close>

definition all_inv :: "item list \<Rightarrow> 'w vm \<Rightarrow> bool" where
  "all_inv arr v \<longleftrightarrow> raised v = None \<and> ret_handler v = Some h_all_next \<and> frame v = None \<and>
     asArray (params v ! 0) = arr \<and> locals v \<noteq> []"

text \<open>One element of \<open>all\<close>: the state after \<open>local(0) = i + 1\<close> and the evaluation.\<close>

definition after_eval :: "item \<Rightarrow> nat \<Rightarrow> item \<Rightarrow> 'w \<Rightarrow> 'w vm \<Rightarrow> 'w vm" where
  "after_eval x i r w v =
     (set_local 0 (int_item (int i + 1)) v)\<lparr>regA := r, world := w, evals := evals v @ [x]\<rparr>"

definition all_result :: "bool \<Rightarrow> item list \<Rightarrow> 'w \<Rightarrow> 'w vm \<Rightarrow> bool" where
  "all_result b es w v' \<longleftrightarrow> regA v' = int_item (if b then 1 else 0) \<and> evals v' = es \<and> world v' = w \<and>
     ret_handler v' = None \<and> raised v' = None"

text \<open>\<open>reduce\<close> while a call of \<open>f\<close> waits: the next element is \<open>origin[count]\<close>.\<close>

definition reduce_inv :: "item \<Rightarrow> item list \<Rightarrow> nat \<Rightarrow> item list \<Rightarrow> 'w vm \<Rightarrow> bool" where
  "reduce_inv f origin count args v \<longleftrightarrow>
     raised v = None \<and> ret_handler v = Some h_reduce_next \<and> frame v = Some (f, args) \<and>
     pushed v = [] \<and> params v ! 0 = f \<and> isCallable f \<and> asArray (params v ! 1) = origin \<and>
     locals v \<noteq> [] \<and> local v 0 = int_item (int count)"

definition call_result :: "item \<Rightarrow> (item \<times> item list) list \<Rightarrow> 'w \<Rightarrow> 'w vm \<Rightarrow> bool" where
  "call_result r cs w v' \<longleftrightarrow> regA v' = r \<and> calls v' = cs \<and> world v' = w \<and>
     ret_handler v' = None \<and> raised v' = None"

text \<open>
  \<open>cascade\<close> while the call of stage \<open>j\<close> on \<open>inp\<close> waits; \<open>acc\<close> is the last
  accepted value, kept in local 1, which stays out-of-band until a stage accepts.
\<close>

definition cascade_inv :: "item list \<Rightarrow> nat \<Rightarrow> item list \<Rightarrow> item option \<Rightarrow> 'w vm \<Rightarrow> bool" where
  "cascade_inv fns j inp acc v \<longleftrightarrow>
     raised v = None \<and> ret_handler v = Some h_cascade_next \<and> frame v = Some (fns ! j, inp) \<and>
     pushed v = [] \<and> params v \<noteq> [] \<and> asArray (params v ! 0) = fns \<and> list_all isCallable fns \<and>
     2 \<le> length (locals v) \<and> local v 0 = int_item (int (Suc j)) \<and>
     local v 1 = (case acc of None \<Rightarrow> Item True FlcNil | Some a \<Rightarrow> a) \<and>
     (case acc of None \<Rightarrow> inp = drop 1 (params v) | Some a \<Rightarrow> inp = [a] \<and> \<not> isOob a)"

definition accepted_or_nil :: "item option \<Rightarrow> item" where
  "accepted_or_nil res = (case res of Some a \<Rightarrow> a | None \<Rightarrow> nil_item)"

section \<open>The library as a whole\<close>

text \<open>The combinators that are entered through the machine, and their entry points.\<close>

datatype combinator =
    c_any | c_all | c_anyp | c_allp | c_map | c_xmap | c_filter | c_reduce | c_iff | c_choice
  | c_cascade | c_dolist | c_floop | c_times | c_firstOf | c_lit

definition enter :: "combinator \<Rightarrow> 'w machine \<Rightarrow> 'w vm \<Rightarrow> 'w vm" where
  "enter c M v =
     (case c of
        c_any \<Rightarrow> core_any M v
      | c_all \<Rightarrow> core_all M v
      | c_anyp \<Rightarrow> core_anyp M v
      | c_allp \<Rightarrow> core_allp M v
      | c_map \<Rightarrow> core_map M v
      | c_xmap \<Rightarrow> core_xmap M v
      | c_filter \<Rightarrow> core_filter M v
      | c_reduce \<Rightarrow> core_reduce M v
      | c_iff \<Rightarrow> core_iff M v
      | c_choice \<Rightarrow> core_choice M v
      | c_cascade \<Rightarrow> core_cascade M v
      | c_dolist \<Rightarrow> core_dolist M v
      | c_floop \<Rightarrow> core_floop M v
      | c_times \<Rightarrow> core_times M v
      | c_firstOf \<Rightarrow> core_firstof M v
      | c_lit \<Rightarrow> core_lit M v)"

text \<open>
  The arity and the types that each combinator documents for its arguments
  (\<open>A\<close> an array, \<open>C\<close> a callable, \<open>X\<close> any item, \<open>N\<close> a number, \<open>R\<close> a range that is
  not open, \<open>$\<close> a reference): \<open>A\<close> for \<open>any\<close>, \<open>all\<close> and \<open>floop\<close>, \<open>A,...\<close> for
  \<open>cascade\<close>, \<open>C,A\<close> for \<open>map\<close>, \<open>xmap\<close>, \<open>filter\<close> and \<open>dolist\<close>, \<open>C,A,[X]\<close> for
  \<open>reduce\<close>, \<open>X,X,[X]\<close> for \<open>iff\<close> and \<open>choice\<close>, \<open>X\<close> for \<open>lit\<close>,
  \<open>N|R, $|Nil|N, A\<close> for \<open>times\<close>, and anything for \<open>anyp\<close>, \<open>allp\<close> and \<open>firstOf\<close>.
\<close>

definition has_type :: "'w vm \<Rightarrow> nat \<Rightarrow> (item \<Rightarrow> bool) \<Rightarrow> bool" where
  "has_type v i P = (case param v i of None \<Rightarrow> False | Some x \<Rightarrow> P x)"

definition args_ok :: "combinator \<Rightarrow> 'w vm \<Rightarrow> bool" where
  "args_ok c v =
     (case c of
        c_any \<Rightarrow> has_type v 0 isArray
      | c_all \<Rightarrow> has_type v 0 isArray
      | c_floop \<Rightarrow> has_type v 0 isArray
      | c_cascade \<Rightarrow> has_type v 0 isArray
      | c_map \<Rightarrow> has_type v 0 isCallable \<and> has_type v 1 isArray
      | c_xmap \<Rightarrow> has_type v 0 isCallable \<and> has_type v 1 isArray
      | c_filter \<Rightarrow> has_type v 0 isCallable \<and> has_type v 1 isArray
      | c_dolist \<Rightarrow> has_type v 0 isCallable \<and> has_type v 1 isArray
      | c_reduce \<Rightarrow> has_type v 0 isCallable \<and> has_type v 1 isArray
      | c_iff \<Rightarrow> has_type v 0 (\<lambda>_. True) \<and> has_type v 1 (\<lambda>_. True)
      | c_choice \<Rightarrow> has_type v 0 (\<lambda>_. True) \<and> has_type v 1 (\<lambda>_. True)
      | c_lit \<Rightarrow> has_type v 0 (\<lambda>_. True)
      | c_times \<Rightarrow>
          has_type v 0 (\<lambda>x. isOrdinal x \<or> (isRange x \<and> \<not> asRangeIsOpen x)) \<and>
          has_type v 1 (\<lambda>x. byref v 1 \<or> isNil x \<or> isOrdinal x) \<and>
          has_type v 2 isArray
      | c_anyp \<Rightarrow> True
      | c_allp \<Rightarrow> True
      | c_firstOf \<Rightarrow> True)"

text \<open>\<open>times(2, nil, [add, 5])\<close>: the second element of the sequence is not callable.\<close>

definition times_call :: "nat vm" where
  "times_call = call_with [int_item 2, nil_item, arr_item 7 [fn 0, int_item 5]] 0"

text \<open>\<open>reduce(1)\<close>: one argument, and not a callable; and \<open>times(2, nil, [add])\<close>.\<close>

definition reduce_bad_call :: "nat vm" where
  "reduce_bad_call = call_with [int_item 1] 0"

definition times_good_call :: "nat vm" where
  "times_good_call = call_with [int_item 2, nil_item, arr_item 7 [fn 0]] 0"

section \<open>Properties of ItemArray\<close>

subsection \<open>The integer conversions on values in range\<close>

lemma to_int32_id: "- 2147483648 \<le> x \<Longrightarrow> x < 2147483648 \<Longrightarrow> to_int32 x = x"
  by (simp add: to_int32_def)

lemma to_int32_big: "2147483648 \<le> x \<Longrightarrow> x < 4294967296 \<Longrightarrow> to_int32 x = x - 4294967296"
proof -
  assume a: "2147483648 \<le> x" "x < 4294967296"
  have "x + 2147483648 = (x - 2147483648) + 4294967296" by simp
  then have "(x + 2147483648) mod 4294967296 = (x - 2147483648) mod 4294967296"
    by (simp only: mod_add_self2)
  also have "\<dots> = x - 2147483648" using a by simp
  finally have "(x + 2147483648) mod 4294967296 = x - 2147483648" .
  then show ?thesis unfolding to_int32_def by simp
qed

lemma to_int32_size_cases:
  "L < 4294967296 \<Longrightarrow> to_int32 (int L) = int L \<or> to_int32 (int L) < 0"
  using to_int32_id [of "int L"] to_int32_big [of "int L"] by linarith

lemma to_uint32_id: "0 \<le> x \<Longrightarrow> x < 4294967296 \<Longrightarrow> to_uint32 x = nat x"
  by (simp add: to_uint32_def)

text \<open>
  The guard \<open>pos < 0 || pos > (int32) m_size\<close>, after the source's own
  normalisation, fires on every position whose true normalisation is outside
  \<open>[0, len]\<close>; the guard with \<open>>=\<close> fires outside \<open>[0, len)\<close>.
\<close>

lemma bad_pos_closed:
  assumes "is_int32 p" "L < 4294967296" "normalized L p < 0 \<or> int L < normalized L p"
  shows "(if p < 0 then to_int32 (int L + p) else p) < 0 \<or>
         to_int32 (int L) < (if p < 0 then to_int32 (int L + p) else p)"
proof (cases "p < 0")
  case True
  with assms have "int L + p < 0" "- 2147483648 \<le> int L + p"
    by (auto simp: normalized_def is_int32_def)
  then have "to_int32 (int L + p) = int L + p" by (simp add: to_int32_id)
  with True \<open>int L + p < 0\<close> show ?thesis by simp
next
  case False
  with assms have "int L < p" "p < 2147483648" by (auto simp: normalized_def is_int32_def)
  then have "to_int32 (int L) = int L" by (simp add: to_int32_id)
  with False \<open>int L < p\<close> show ?thesis by simp
qed

lemma bad_pos_open:
  assumes "is_int32 p" "L < 4294967296" "normalized L p < 0 \<or> int L \<le> normalized L p"
  shows "(if p < 0 then to_int32 (int L + p) else p) < 0 \<or>
         to_int32 (int L) \<le> (if p < 0 then to_int32 (int L + p) else p)"
proof (cases "p < 0")
  case True
  with assms have "int L + p < 0" "- 2147483648 \<le> int L + p"
    by (auto simp: normalized_def is_int32_def)
  then have "to_int32 (int L + p) = int L + p" by (simp add: to_int32_id)
  with True \<open>int L + p < 0\<close> show ?thesis by simp
next
  case False
  with assms have "int L \<le> p" by (auto simp: normalized_def is_int32_def)
  with False to_int32_size_cases [OF assms(2)] show ?thesis by auto
qed

subsection \<open>Rejected positions leave the array alone\<close>

text \<open>
  Claim C4, as the code has it.  For \<open>insert\<close> of a value, \<open>remove(first, last)\<close>
  and \<open>change(other, begin, end)\<close>: when a position argument, normalised, is
  outside its valid bounds (\<open>[0, length]\<close>, and \<open>[0, length)\<close> for the first
  position of \<open>remove\<close>), the operation returns false, and the array record and
  the whole heap are exactly as before the call.  The bulk \<open>insert\<close> of another
  array does the same when the other array is non-empty; when the other array
  is empty it returns true, whatever the position, again without touching
  anything.
\<close>

theorem rejected_position_no_mutation:
  assumes "m_size a < 4294967296" and "is_int32 p" and "is_int32 q"
  shows "(outside_closed (m_size a) p \<longrightarrow> insert_item growth h a x p = Some (False, a, h)) \<and>
         (outside_closed (m_size a) p \<longrightarrow> insert_array h a other p = Some (m_size other = 0, a, h)) \<and>
         (outside_open (m_size a) p \<or> outside_closed (m_size a) q \<longrightarrow>
            remove_range h a p q = Some (False, a, h)) \<and>
         (outside_closed (m_size a) p \<or> outside_closed (m_size a) q \<longrightarrow>
            change h a other p q = Some (False, a, h))"
proof (intro conjI impI)
  assume "outside_closed (m_size a) p"
  then show "insert_item growth h a x p = Some (False, a, h)"
    using bad_pos_closed [OF assms(2) assms(1)]
    by (simp add: insert_item_def outside_closed_def Let_def)
next
  assume "outside_closed (m_size a) p"
  then show "insert_array h a other p = Some (m_size other = 0, a, h)"
    using bad_pos_closed [OF assms(2) assms(1)]
    by (simp add: insert_array_def outside_closed_def Let_def)
next
  assume bad: "outside_open (m_size a) p \<or> outside_closed (m_size a) q"
  show "remove_range h a p q = Some (False, a, h)"
  proof (cases "outside_open (m_size a) p")
    case True
    then show ?thesis
      using bad_pos_open [OF assms(2) assms(1)]
      by (simp add: remove_range_def outside_open_def Let_def)
  next
    case False
    with bad have "outside_closed (m_size a) q" by simp
    then show ?thesis
      using bad_pos_closed [OF assms(3) assms(1)]
      by (simp add: remove_range_def outside_closed_def Let_def)
  qed
next
  assume bad: "outside_closed (m_size a) p \<or> outside_closed (m_size a) q"
  show "change h a other p q = Some (False, a, h)"
  proof (cases "outside_closed (m_size a) p")
    case True
    then show ?thesis
      using bad_pos_closed [OF assms(2) assms(1)]
      by (simp add: change_def outside_closed_def Let_def)
  next
    case False
    with bad have "outside_closed (m_size a) q" by simp
    then show ?thesis
      using bad_pos_closed [OF assms(3) assms(1)]
      by (simp add: change_def outside_closed_def Let_def)
  qed
qed

text \<open>The theorem at the array of three items, with positions \<open>7\<close> and \<open>-9\<close>.\<close>

theorem rejected_position_no_mutation_witness:
  "m_size array3 < 4294967296 \<and> is_int32 7 \<and> is_int32 (- 9) \<and>
   outside_closed (m_size array3) 7 \<and> outside_closed (m_size array3) (- 9) \<and>
   outside_open (m_size array3) 7 \<and>
   insert_item 16 heap3 array3 nil_item 7 = Some (False, array3, heap3) \<and>
   insert_array heap3 array3 array3 7 = Some (False, array3, heap3) \<and>
   remove_range heap3 array3 7 (- 9) = Some (False, array3, heap3) \<and>
   change heap3 array3 array3 7 (- 9) = Some (False, array3, heap3)"
proof -
  have a: "m_size array3 < 4294967296" by (simp add: array3_def)
  have b: "is_int32 7" "is_int32 (- 9)" by (simp_all add: is_int32_def)
  have c: "outside_closed (m_size array3) 7" "outside_closed (m_size array3) (- 9)"
    "outside_open (m_size array3) 7"
    by (simp_all add: outside_closed_def outside_open_def normalized_def array3_def)
  have d: "m_size array3 \<noteq> 0" by (simp add: array3_def)
  show ?thesis
    using rejected_position_no_mutation [OF a b, of 16 heap3 nil_item array3] a b c d by simp
qed

text \<open>
  Claim C4 as stated fails for the bulk insert: position \<open>7\<close> is outside
  \<open>[0, 3]\<close>, and inserting the empty array there returns true.
\<close>

theorem insert_array_empty_counterexample:
  "outside_closed (m_size array3) 7 \<and>
   insert_array heap3 array3 empty_array 7 = Some (True, array3, heap3)"
  by (simp add: outside_closed_def normalized_def array3_def insert_array_def empty_array_def)

subsection \<open>Removing one element\<close>

text \<open>
  Claim C10 says that \<open>remove(first)\<close> reads only cells inside \<open>[0, length)\<close>.
  The code moves \<open>m_size - first\<close> cells starting at \<open>first + 1\<close>, one more than
  there are: the last cell read is cell \<open>m_size\<close>.  On the full array of three
  items \<open>remove(0)\<close> reads cell \<open>3\<close>, outside the buffer (a memory fault), where
  \<open>remove(0, 1)\<close> moves two cells and succeeds; with a spare cell the stale item
  of cell \<open>3\<close> is read and copied to cell \<open>2\<close>.
\<close>

theorem remove_reads_past_end:
  "remove heap3 array3 0 = None \<and>
   remove_range heap3 array3 0 1 =
     Some (True, array3\<lparr>m_size := 2\<rparr>,
           heap3\<lparr>bufs := (bufs heap3)(1 \<mapsto> [int_item 20, int_item 30, int_item 30])\<rparr>) \<and>
   remove heap4 array4 0 =
     Some (True, array4\<lparr>m_size := 2\<rparr>,
           heap4\<lparr>bufs := (bufs heap4)(1 \<mapsto> [int_item 20, int_item 30, int_item 99, int_item 99])\<rparr>)"
  by (simp add: remove_def remove_range_def heap3_def array3_def heap4_def array4_def
        to_int32_def to_uint32_def memmove_def Let_def)

subsection \<open>Partition of the whole array\<close>

text \<open>
  Claim C9, as the code has it: for every non-empty array \<open>A\<close> (whose length an
  \<open>int32\<close> can hold), \<open>partition(A, 0, length(A))\<close> returns a new array in a
  newly allocated buffer, different from the buffer of \<open>A\<close>, with the same
  contents in the same order; \<open>A\<close> keeps its contents.
\<close>

theorem partition_whole_fresh_copy:
  assumes "wf_array h a" and "0 < m_size a" and "m_size a < 2147483648"
  shows "\<exists>b h'. partition h a 0 (int (m_size a)) = Some (Some b, h') \<and>
           m_data b \<noteq> m_data a \<and> brk h < m_data b \<and> m_size b = m_size a \<and>
           contents h' b = contents h a \<and> contents h' a = contents h a"
proof -
  from assms obtain d where d: "bufs h (m_data a) = Some d" "length d = m_alloc a"
    "m_data a \<le> brk h" "m_size a \<le> m_alloc a"
    by (auto simp: wf_array_def split: if_splits option.splits)
  have i: "to_int32 (int (m_size a)) = int (m_size a)" using assms(3) by (simp add: to_int32_id)
  have u: "to_uint32 (int (m_size a)) = m_size a" using assms(3) by (simp add: to_uint32_id)
  show ?thesis
    using d assms(2)
    by (simp add: partition_def i u memAlloc_def memcpy_def memmove_def contents_def Let_def)
qed

text \<open>The theorem at the array of three items: the copy lives in buffer \<open>2\<close>.\<close>

theorem partition_whole_fresh_copy_witness:
  "wf_array heap3 array3 \<and> 0 < m_size array3 \<and> m_size array3 < 2147483648 \<and>
   (\<exists>b h'. partition heap3 array3 0 (int (m_size array3)) = Some (Some b, h') \<and>
      m_data b \<noteq> m_data array3 \<and> brk heap3 < m_data b \<and> m_size b = m_size array3 \<and>
      contents h' b = contents heap3 array3 \<and> contents h' array3 = contents heap3 array3)"
proof -
  have w: "wf_array heap3 array3" by (simp add: wf_array_def heap3_def array3_def)
  have p: "0 < m_size array3" and s: "m_size array3 < 2147483648" by (simp_all add: array3_def)
  show ?thesis using partition_whole_fresh_copy [OF w p s] w p s by simp
qed

text \<open>
  Claim C9 as stated includes the empty array; there the start position \<open>0\<close>
  is not below the length, and \<open>partition\<close> returns the null pointer.
\<close>

theorem partition_empty_counterexample:
  "wf_array heap3 empty_array \<and> contents heap3 empty_array = [] \<and>
   partition heap3 empty_array 0 (int (m_size empty_array)) = Some (None, heap3)"
  by (simp add: wf_array_def empty_array_def contents_def heap3_def partition_def to_int32_def)

section \<open>The combinators meet their contracts\<close>

subsection \<open>Steps of the trampoline\<close>

lemma resume_Suc_handler:
  "raised v = None \<Longrightarrow> ret_handler v = Some h \<Longrightarrow>
   resume (Suc n) M v = finish n M (call_handler h M (run_frame M v))"
  by (simp add: finish_def split: prod.splits)

lemma resume_done: "ret_handler v = None \<Longrightarrow> resume n M v = Some v"
  by (cases n) simp_all

lemma to_uint32_nat: "n < 4294967296 \<Longrightarrow> to_uint32 (int n) = n"
  by (simp add: to_uint32_def)

subsection \<open>all\<close>

text \<open>The handler of \<open>all\<close>, entered by the machine.\<close>

lemma resume_all_next:
  "all_inv arr v \<Longrightarrow> resume (Suc m) M v = finish m M (core_all_next M v)"
  by (subst resume_Suc_handler [where h = h_all_next])
     (simp_all add: all_inv_def call_handler_def run_frame_def)

lemma core_all_next_true:
  "all_inv arr v \<Longrightarrow> isTrue (regA v) \<Longrightarrow> local v 0 = int_item (int c) \<Longrightarrow> c < 4294967296 \<Longrightarrow>
   core_all_next M v = all_next_loop M arr c v"
  by (simp add: core_all_next_def all_inv_def asInteger_def to_uint32_nat)

lemma core_all_next_false:
  "\<not> isTrue (regA v) \<Longrightarrow> core_all_next M v = (False, retval (int_item 0) v)"
  by (simp add: core_all_next_def)

lemma functionalEval_after:
  "run_eval M x (world v) = (d, r, w) \<Longrightarrow>
   functionalEval M x (set_local 0 (int_item (int i + 1)) v) = (d, after_eval x i r w v)"
  by (simp add: functionalEval_def after_eval_def set_local_def)

lemma after_eval_inv: "all_inv arr v \<Longrightarrow> all_inv arr (after_eval x i r w v)"
  by (simp add: all_inv_def after_eval_def set_local_def)

lemma after_eval_fields:
  "regA (after_eval x i r w v) = r" "world (after_eval x i r w v) = w"
  "evals (after_eval x i r w v) = evals v @ [x]"
  by (simp_all add: after_eval_def set_local_def)

lemma after_eval_local: "locals v \<noteq> [] \<Longrightarrow> local (after_eval x i r w v) 0 = int_item (int (Suc i))"
  by (cases "locals v") (simp_all add: after_eval_def set_local_def local_def)

text \<open>
  The two loops, run to the end of the call: from index \<open>count\<close> on they do what
  \<open>all_spec\<close> does on the rest of the array.  Each deferred evaluation costs one
  entry of the handler, so \<open>length arr - count\<close> entries are enough.
\<close>

lemma all_next_loop_resume:
  assumes len: "length arr < 4294967296"
  shows "all_inv arr v \<Longrightarrow> count \<le> length arr \<Longrightarrow> length arr - count \<le> n \<Longrightarrow>
         all_spec M (drop count arr) (world v) = (b, es, w) \<Longrightarrow>
         \<exists>v'. finish n M (all_next_loop M arr count v) = Some v' \<and> all_result b (evals v @ es) w v'"
proof (induction k \<equiv> "length arr - count" arbitrary: count v n b es w)
  case 0
  then have "count = length arr" by simp
  with 0 show ?case
    by (simp add: all_next_loop.simps finish_def retval_def returnHandler_def all_inv_def all_result_def)
next
  case (Suc k)
  then have lt: "count < length arr" by simp
  obtain d r w1 where ev: "run_eval M (arr ! count) (world v) = (d, r, w1)"
    by (cases "run_eval M (arr ! count) (world v)") auto
  define v1 where "v1 = after_eval (arr ! count) count r w1 v"
  have fe: "functionalEval M (arr ! count) (set_local 0 (int_item (int count + 1)) v) = (d, v1)"
    using ev by (simp add: functionalEval_after v1_def)
  have dr: "drop count arr = arr ! count # drop (Suc count) arr"
    using lt by (simp add: Cons_nth_drop_Suc)
  have inv1: "all_inv arr v1" using Suc.prems(1) by (simp add: v1_def after_eval_inv)
  have loc1: "local v1 0 = int_item (int (Suc count))"
    using Suc.prems(1) by (simp add: v1_def after_eval_local all_inv_def)
  have f1: "regA v1 = r" "world v1 = w1" "evals v1 = evals v @ [arr ! count]"
    by (simp_all add: v1_def after_eval_fields)
  have unf: "all_next_loop M arr count v =
               (if d then (True, v1)
                else if \<not> isTrue r then (False, retval (int_item 0) v1)
                else all_next_loop M arr (Suc count) v1)"
    using lt fe f1 by (subst all_next_loop.simps) simp
  from Suc.prems(3) lt obtain m where n: "n = Suc m" by (cases n) auto
  have step: "finish n M (all_next_loop M arr count v) =
                (if \<not> isTrue r then Some (returnHandler None (retval (int_item 0) v1))
                 else finish (if d then m else n) M (all_next_loop M arr (Suc count) v1))"
  proof (cases d)
    case True
    have "finish n M (all_next_loop M arr count v) = resume (Suc m) M v1"
      using unf True n by (simp add: finish_def)
    also have "\<dots> = finish m M (core_all_next M v1)"
      using inv1 by (rule resume_all_next)
    also have "\<dots> = (if \<not> isTrue r then Some (returnHandler None (retval (int_item 0) v1))
                 else finish m M (all_next_loop M arr (Suc count) v1))"
      using core_all_next_true [OF inv1 _ loc1, of M] core_all_next_false [of v1 M] f1 lt len
      by (simp add: finish_def)
    finally show ?thesis using True by simp
  next
    case False
    then show ?thesis using unf by (simp add: finish_def)
  qed
  show ?case
  proof (cases "isTrue r")
    case False
    then have "b = False" "es = [arr ! count]" "w = w1"
      using Suc.prems(4) ev dr by simp_all
    then show ?thesis
      using step False f1 inv1
      by (simp add: returnHandler_def retval_def all_result_def all_inv_def)
  next
    case True
    obtain b' es' w' where rest: "all_spec M (drop (Suc count) arr) w1 = (b', es', w')"
      by (cases "all_spec M (drop (Suc count) arr) w1") auto
    then have sp: "b = b'" "es = arr ! count # es'" "w = w'"
      using Suc.prems(4) ev dr True by simp_all
    have k: "k = length arr - Suc count" using Suc.hyps(2) by simp
    have fuel: "length arr - Suc count \<le> (if d then m else n)"
      using Suc.prems(3) n by auto
    from Suc.hyps(1) [OF k inv1 _ fuel, of b' es' w'] lt rest f1
    obtain v' where "finish (if d then m else n) M (all_next_loop M arr (Suc count) v1) = Some v'"
      "all_result b' (evals v1 @ es') w' v'"
      by auto
    then show ?thesis using step True sp f1 by simp
  qed
qed

lemma all_loop_resume:
  assumes len: "length arr < 4294967296"
  shows "all_inv arr v \<Longrightarrow> i \<le> length arr \<Longrightarrow> length arr - i \<le> n \<Longrightarrow>
         all_spec M (drop i arr) (world v) = (b, es, w) \<Longrightarrow>
         \<exists>v'. resume n M (all_loop M arr i v) = Some v' \<and> all_result b (evals v @ es) w v'"
proof (induction k \<equiv> "length arr - i" arbitrary: i v n b es w)
  case 0
  then have "i = length arr" by simp
  with 0 show ?case
    by (simp add: all_loop.simps resume_done retval_def returnHandler_def all_inv_def all_result_def)
next
  case (Suc k)
  then have lt: "i < length arr" by simp
  obtain d r w1 where ev: "run_eval M (arr ! i) (world v) = (d, r, w1)"
    by (cases "run_eval M (arr ! i) (world v)") auto
  define v1 where "v1 = after_eval (arr ! i) i r w1 v"
  have fe: "functionalEval M (arr ! i) (set_local 0 (int_item (int i + 1)) v) = (d, v1)"
    using ev by (simp add: functionalEval_after v1_def)
  have dr: "drop i arr = arr ! i # drop (Suc i) arr"
    using lt by (simp add: Cons_nth_drop_Suc)
  have inv1: "all_inv arr v1" using Suc.prems(1) by (simp add: v1_def after_eval_inv)
  have loc1: "local v1 0 = int_item (int (Suc i))"
    using Suc.prems(1) by (simp add: v1_def after_eval_local all_inv_def)
  have f1: "regA v1 = r" "world v1 = w1" "evals v1 = evals v @ [arr ! i]"
    by (simp_all add: v1_def after_eval_fields)
  have unf: "all_loop M arr i v =
               (if d then v1
                else if \<not> isTrue r then retval (int_item 0) (returnHandler None v1)
                else all_loop M arr (Suc i) v1)"
    using lt fe f1 by (subst all_loop.simps) simp
  from Suc.prems(3) lt obtain m where n: "n = Suc m" by (cases n) auto
  obtain b' es' w' where rest: "all_spec M (drop (Suc i) arr) w1 = (b', es', w')"
    by (cases "all_spec M (drop (Suc i) arr) w1") auto
  have sp: "(b, es, w) = (if isTrue r then (b', arr ! i # es', w') else (False, [arr ! i], w1))"
    using Suc.prems(4) ev dr rest by (auto split: if_splits)
  show ?case
  proof (cases d)
    case True
    have "resume n M (all_loop M arr i v) = finish m M (core_all_next M v1)"
      using unf True n resume_all_next [OF inv1] by simp
    also have "\<dots> = (if \<not> isTrue r then Some (returnHandler None (retval (int_item 0) v1))
                 else finish m M (all_next_loop M arr (Suc i) v1))"
      using core_all_next_true [OF inv1 _ loc1, of M] core_all_next_false [of v1 M] f1 lt len
      by (simp add: finish_def)
    finally have step: "resume n M (all_loop M arr i v) =
       (if \<not> isTrue r then Some (returnHandler None (retval (int_item 0) v1))
        else finish m M (all_next_loop M arr (Suc i) v1))" .
    show ?thesis
    proof (cases "isTrue r")
      case False
      then show ?thesis using step sp f1 inv1
        by (simp add: returnHandler_def retval_def all_result_def all_inv_def)
    next
      case rt: True
      have fuel: "length arr - Suc i \<le> m" using Suc.prems(3) n by simp
      from all_next_loop_resume [OF len inv1 _ fuel, of M b' es' w'] lt rest f1
      obtain v' where "finish m M (all_next_loop M arr (Suc i) v1) = Some v'"
        "all_result b' (evals v1 @ es') w' v'" by auto
      then show ?thesis using step rt sp f1 by simp
    qed
  next
    case False
    show ?thesis
    proof (cases "isTrue r")
      case rf: False
      then show ?thesis using unf False sp f1 inv1
        by (simp add: resume_done returnHandler_def retval_def all_result_def all_inv_def)
    next
      case rt: True
      have k: "k = length arr - Suc i" using Suc.hyps(2) by simp
      have fuel: "length arr - Suc i \<le> n" using Suc.prems(3) by simp
      from Suc.hyps(1) [OF k inv1 _ fuel, of b' es' w'] lt rest f1
      obtain v' where "resume n M (all_loop M arr (Suc i) v1) = Some v'"
        "all_result b' (evals v1 @ es') w' v'" by auto
      then show ?thesis using unf False rt sp f1 by simp
    qed
  qed
qed

lemma all_spec_shape:
  "all_spec M xs w = (b, es, w') \<Longrightarrow> es = take (length es) xs \<and> (b \<longrightarrow> es = xs) \<and> (\<not> b \<longrightarrow> es \<noteq> [])"
proof (induction xs arbitrary: w b es w')
  case Nil
  then show ?case by simp
next
  case (Cons x xs)
  obtain d r w1 where ev: "run_eval M x w = (d, r, w1)" by (cases "run_eval M x w") auto
  obtain b' es' w2 where rest: "all_spec M xs w1 = (b', es', w2)" by (cases "all_spec M xs w1") auto
  from Cons.IH [OF rest] Cons.prems ev rest show ?case
    by (auto split: if_splits)
qed

lemma core_all_entry:
  "param v 0 = Some a \<Longrightarrow> isArray a \<Longrightarrow> asArray a \<noteq> [] \<Longrightarrow>
   core_all M v = all_loop M (asArray a) 0 (addLocals 1 (returnHandler (Some h_all_next) v))"
  by (simp add: core_all_def Let_def)

text \<open>
  Claim C2.  For every array \<open>seq\<close>: \<open>all(seq)\<close> returns false when \<open>seq\<close> is
  empty, and nothing is evaluated.  Otherwise the call ends (after at most
  \<open>length seq\<close> entries of the handler), the elements are evaluated strictly
  from the left, the first element that evaluates to false ends the run with
  false and no element after it is evaluated, and the result is true only if
  every element evaluated to true: result, evaluated elements and state of the
  script are those of \<open>all_spec\<close>, and the evaluated elements are a prefix of
  \<open>seq\<close>, the whole of it when the result is true.  The result is the integer
  \<open>0\<close> or \<open>1\<close>.
\<close>

theorem all_contract:
  assumes "entered v" and "param v 0 = Some a" and "isArray a" and "length (asArray a) < 4294967296"
    and "length (asArray a) \<le> n"
  shows "(asArray a = [] \<longrightarrow>
            resume n M (core_all M v) = Some (retval (int_item 0) v) \<and> \<not> isTrue (int_item 0)) \<and>
         (asArray a \<noteq> [] \<longrightarrow>
            (\<exists>v' b es w. resume n M (core_all M v) = Some v' \<and>
               all_spec M (asArray a) (world v) = (b, es, w) \<and>
               regA v' = int_item (if b then 1 else 0) \<and> isTrue (regA v') = b \<and>
               evals v' = evals v @ es \<and> world v' = w \<and> raised v' = None \<and>
               es = take (length es) (asArray a) \<and> (b \<longrightarrow> es = asArray a)))"
proof (rule conjI; rule impI)
  assume "asArray a = []"
  then show "resume n M (core_all M v) = Some (retval (int_item 0) v) \<and> \<not> isTrue (int_item 0)"
    using assms(1-3) by (simp add: core_all_def resume_done retval_def entered_def isTrue_def)
next
  assume ne: "asArray a \<noteq> []"
  define v0 where "v0 = addLocals 1 (returnHandler (Some h_all_next) v)"
  have inv: "all_inv (asArray a) v0"
    using assms(1,2)
    by (simp add: v0_def all_inv_def addLocals_def returnHandler_def entered_def param_def split: if_splits)
  have w0: "world v0 = world v" "evals v0 = evals v"
    by (simp_all add: v0_def addLocals_def returnHandler_def)
  obtain b es w where sp: "all_spec M (asArray a) (world v) = (b, es, w)"
    by (cases "all_spec M (asArray a) (world v)") auto
  from all_loop_resume [OF assms(4) inv, of 0 n M b es w] assms(5) sp w0
  obtain v' where r: "resume n M (all_loop M (asArray a) 0 v0) = Some v'"
    "all_result b (evals v0 @ es) w v'" by auto
  have "resume n M (core_all M v) = Some v'"
    using r(1) core_all_entry [OF assms(2,3) ne, of M] by (simp add: v0_def)
  moreover have "isTrue (regA v') = b" using r(2) by (simp add: all_result_def isTrue_def)
  ultimately show "\<exists>v' b es w. resume n M (core_all M v) = Some v' \<and>
               all_spec M (asArray a) (world v) = (b, es, w) \<and>
               regA v' = int_item (if b then 1 else 0) \<and> isTrue (regA v') = b \<and>
               evals v' = evals v @ es \<and> world v' = w \<and> raised v' = None \<and>
               es = take (length es) (asArray a) \<and> (b \<longrightarrow> es = asArray a)"
    using r(2) sp w0 all_spec_shape [OF sp] by (auto simp: all_result_def)
qed


text \<open>
  \<open>all([1, 0, 3])\<close> is false, and only \<open>1\<close> and \<open>0\<close> are evaluated: the script
  has counted two evaluations.
\<close>

theorem all_contract_witness:
  "entered (call_with [arr_item 7 [int_item 1, int_item 0, int_item 3]] (0::nat)) \<and>
   (\<exists>v'. resume 3 script (core_all script (call_with [arr_item 7 [int_item 1, int_item 0, int_item 3]] 0)) = Some v' \<and>
      regA v' = int_item 0 \<and> evals v' = [int_item 1, int_item 0] \<and> world v' = 2)"
proof -
  let ?a = "arr_item 7 [int_item 1, int_item 0, int_item 3]"
  let ?v = "call_with [?a] (0::nat)"
  have e: "entered ?v" by (simp add: entered_def call_with_def)
  have p: "param ?v 0 = Some ?a" by (simp add: param_def call_with_def)
  have a: "isArray ?a" by (simp add: isArray_def)
  have l: "length (asArray ?a) < 4294967296" "length (asArray ?a) \<le> 3" by (simp_all add: asArray_def)
  have s: "all_spec script (asArray ?a) (world ?v) = (False, [int_item 1, int_item 0], 2)"
    by (simp add: asArray_def call_with_def script_def isTrue_def)
  have ne: "asArray ?a \<noteq> []" by (simp add: asArray_def)
  from all_contract [OF e p a l, of script, THEN conjunct2, rule_format, OF ne]
  obtain v' b es w where r: "resume 3 script (core_all script ?v) = Some v'"
    "all_spec script (asArray ?a) (world ?v) = (b, es, w)"
    "regA v' = int_item (if b then 1 else 0)" "evals v' = evals ?v @ es" "world v' = w"
    by blast
  from r(2) s have "b = False" "es = [int_item 1, int_item 0]" "w = 2" by simp_all
  with r have "resume 3 script (core_all script ?v) = Some v' \<and>
      regA v' = int_item 0 \<and> evals v' = [int_item 1, int_item 0] \<and> world v' = 2"
    by (simp add: call_with_def)
  then show ?thesis using e by blast
qed

subsection \<open>reduce\<close>

lemma resume_reduce_next:
  "reduce_inv f origin count args v \<Longrightarrow>
   resume (Suc m) M v = finish m M (core_reduce_next M (run_frame M v))"
  by (subst resume_Suc_handler [where h = h_reduce_next])
     (simp_all add: reduce_inv_def call_handler_def)

text \<open>
  With the call of \<open>f\<close> on \<open>acc\<close> and \<open>x\<close> waiting and \<open>origin[count]\<close> next, the call
  ends in the fold of \<open>acc\<close>, \<open>x\<close> and the rest of the array.
\<close>

lemma reduce_resume:
  assumes len: "length origin < 4294967296"
  shows "reduce_inv f origin count [acc, x] v \<Longrightarrow> count \<le> length origin \<Longrightarrow>
         length origin - count < n \<Longrightarrow>
         fold_calls M f acc (x # drop count origin) (world v) = (res, cs, w) \<Longrightarrow>
         \<exists>v'. resume n M v = Some v' \<and> call_result res (calls v @ cs) w v'"
proof (induction k \<equiv> "length origin - count" arbitrary: count v n acc x res cs w)
  case 0
  then have c: "count = length origin" by simp
  from 0 obtain m where n: "n = Suc m" by (cases n) auto
  obtain r w1 where rc: "run_call M f [acc, x] (world v) = (r, w1)"
    by (cases "run_call M f [acc, x] (world v)") auto
  define v1 where "v1 = v\<lparr>regA := r, world := w1, frame := None, calls := calls v @ [(f, [acc, x])]\<rparr>"
  have rf: "run_frame M v = v1"
    using "0.prems"(1) rc by (simp add: run_frame_def reduce_inv_def v1_def)
  have "local v1 0 = int_item (int count)"
    using "0.prems"(1) by (auto simp add: reduce_inv_def v1_def local_def)
  then have cnt: "to_uint32 (asInteger (local v1 0)) = count"
    using c len by (simp add: asInteger_def to_uint32_nat)
  have nx: "core_reduce_next M v1 = (False, v1)"
    using "0.prems"(1) c cnt
    by (simp add: core_reduce_next_def reduce_inv_def v1_def Let_def)
  have "resume n M v = Some (returnHandler None v1)"
    using resume_reduce_next [OF "0.prems"(1), of m M] n rf nx by (simp add: finish_def)
  moreover have "res = r" "cs = [(f, [acc, x])]" "w = w1"
    using "0.prems"(4) c rc by simp_all
  ultimately show ?case
    using "0.prems"(1) by (simp add: call_result_def returnHandler_def v1_def reduce_inv_def)
next
  case (Suc k)
  then have lt: "count < length origin" by simp
  from Suc.prems(3) obtain m where n: "n = Suc m" by (cases n) auto
  obtain r w1 where rc: "run_call M f [acc, x] (world v) = (r, w1)"
    by (cases "run_call M f [acc, x] (world v)") auto
  define v1 where "v1 = v\<lparr>regA := r, world := w1, frame := None, calls := calls v @ [(f, [acc, x])]\<rparr>"
  have rf: "run_frame M v = v1"
    using Suc.prems(1) rc by (simp add: run_frame_def reduce_inv_def v1_def)
  define v2 where "v2 = (set_local 0 (int_item (int count + 1)) v1)\<lparr>frame := Some (f, [r, origin ! count])\<rparr>"
  have "local v1 0 = int_item (int count)"
    using Suc.prems(1) by (auto simp add: reduce_inv_def v1_def local_def)
  then have cnt: "to_uint32 (asInteger (local v1 0)) = count"
    using lt len by (simp add: asInteger_def to_uint32_nat)
  have nx: "core_reduce_next M v1 = (True, v2)"
    using Suc.prems(1) lt cnt
    by (simp add: core_reduce_next_def reduce_inv_def v1_def v2_def
          Let_def pushParameter_def set_local_def callFrame_def)
  have inv2: "reduce_inv f origin (Suc count) [r, origin ! count] v2"
    using Suc.prems(1)
    by (cases "locals v") (simp_all add: reduce_inv_def v2_def v1_def set_local_def local_def)
  have step: "resume n M v = resume m M v2"
    using resume_reduce_next [OF Suc.prems(1), of m M] n rf nx by (simp add: finish_def)
  have dr: "drop count origin = origin ! count # drop (Suc count) origin"
    using lt by (simp add: Cons_nth_drop_Suc)
  obtain res' cs' w' where rest:
    "fold_calls M f r (origin ! count # drop (Suc count) origin) w1 = (res', cs', w')"
    by (cases "fold_calls M f r (origin ! count # drop (Suc count) origin) w1") auto
  have sp: "res = res'" "cs = (f, [acc, x]) # cs'" "w = w'"
    using Suc.prems(4) rc rest dr by simp_all
  have k: "k = length origin - Suc count" using Suc.hyps(2) by simp
  have fuel: "length origin - Suc count < m" using Suc.prems(3) n lt by simp
  have w2: "world v2 = w1" "calls v2 = calls v @ [(f, [acc, x])]"
    by (simp_all add: v2_def v1_def set_local_def)
  from Suc.hyps(1) [OF k inv2 _ fuel, of res' cs' w'] lt rest w2
  obtain v' where "resume m M v2 = Some v'" "call_result res' (calls v2 @ cs') w' v'" by auto
  then show ?case using step sp w2 by simp
qed

lemma entered_param: "param v i = Some x \<Longrightarrow> i < length (params v) \<and> params v ! i = x"
  by (simp add: param_def split: if_splits)

lemma reduce_entry_init:
  assumes "entered v" "param v 0 = Some f" "isCallable f" "param v 1 = Some s" "isArray s"
    "param v 2 = Some i" "asArray s = x # xs"
  shows "\<exists>v4. core_reduce M v = v4 \<and> reduce_inv f (asArray s) 1 [i, x] v4 \<and>
           world v4 = world v \<and> calls v4 = calls v"
  using assms entered_param [OF assms(2)] entered_param [OF assms(4)]
  by (simp add: core_reduce_def Let_def reduce_inv_def entered_def addLocals_def returnHandler_def
        pushParameter_def set_local_def callFrame_def local_def)

lemma reduce_entry_pair:
  assumes "entered v" "param v 0 = Some f" "isCallable f" "param v 1 = Some s" "isArray s"
    "param v 2 = None" "asArray s = x # y # ys"
  shows "\<exists>v4. core_reduce M v = v4 \<and> reduce_inv f (asArray s) 2 [x, y] v4 \<and>
           world v4 = world v \<and> calls v4 = calls v"
  using assms entered_param [OF assms(2)] entered_param [OF assms(4)]
  by (simp add: core_reduce_def Let_def reduce_inv_def entered_def addLocals_def returnHandler_def
        pushParameter_def set_local_def callFrame_def local_def)

lemma reduce_entry_trivial:
  assumes "entered v" "param v 0 = Some f" "isCallable f" "param v 1 = Some s" "isArray s"
    "asArray s = [] \<or> (param v 2 = None \<and> length (asArray s) = 1)"
  shows "resume n M (core_reduce M v) =
           Some ((addLocals 1 v)\<lparr>regA := (case param v 2 of Some i \<Rightarrow> (if asArray s = [] then i else nil_item)
                                          | None \<Rightarrow> (if asArray s = [] then nil_item else asArray s ! 0))\<rparr>)"
  using assms
  by (auto simp add: core_reduce_def Let_def entered_def addLocals_def retval_def retnil_def resume_done
        split: option.splits)

text \<open>
  Claim C1.  For every callable \<open>f\<close> and array \<open>seq\<close>: \<open>reduce(f, seq, init)\<close>
  ends and is the left fold of \<open>reduce_spec\<close>: with \<open>init\<close> it folds \<open>init\<close> and
  then every element in order, without \<open>init\<close> it folds pairwise from the
  first two elements; the calls of \<open>f\<close> made are exactly those of the fold, in
  order.  On the empty sequence the result is \<open>init\<close>, or nil, and \<open>f\<close> is not
  called; on a sequence of one element without \<open>init\<close> the result is that
  element and \<open>f\<close> is not called.
\<close>

theorem reduce_contract:
  assumes "entered v" and "param v 0 = Some f" and "isCallable f" and "param v 1 = Some s"
    and "isArray s" and "length (asArray s) < 4294967296" and "length (asArray s) \<le> n"
  shows "\<exists>v' r cs w. resume n M (core_reduce M v) = Some v' \<and>
           reduce_spec M f (asArray s) (param v 2) (world v) = (r, cs, w) \<and>
           regA v' = r \<and> calls v' = calls v @ cs \<and> world v' = w \<and> raised v' = None \<and>
           (asArray s = [] \<longrightarrow> cs = [] \<and> r = (case param v 2 of Some i \<Rightarrow> i | None \<Rightarrow> nil_item)) \<and>
           (param v 2 = None \<and> length (asArray s) = 1 \<longrightarrow> cs = [] \<and> r = asArray s ! 0)"
proof -
  consider (triv) "asArray s = [] \<or> (param v 2 = None \<and> length (asArray s) = 1)"
    | (init) i x xs where "param v 2 = Some i" "asArray s = x # xs"
    | (pair) x y ys where "param v 2 = None" "asArray s = x # y # ys"
  proof (cases "asArray s")
    case Nil
    then show ?thesis using triv by simp
  next
    case (Cons x xs)
    show ?thesis
    proof (cases "param v 2")
      case None
      then show ?thesis using Cons triv pair by (cases xs) auto
    next
      case (Some i)
      then show ?thesis using Cons init by simp
    qed
  qed
  then show ?thesis
  proof cases
    case triv
    have "raised (addLocals 1 v) = None" using assms(1) by (simp add: entered_def addLocals_def)
    with triv show ?thesis
      using reduce_entry_trivial [OF assms(1-5) triv, of n M]
      by (cases "asArray s"; cases "param v 2")
         (auto simp add: reduce_spec_def addLocals_def length_Suc_conv)
  next
    case init
    from reduce_entry_init [OF assms(1-5) init, of M]
    have inv: "reduce_inv f (asArray s) 1 [i, x] (core_reduce M v)"
      and w: "world (core_reduce M v) = world v" "calls (core_reduce M v) = calls v" by auto
    obtain r cs w' where sp: "fold_calls M f i (x # xs) (world v) = (r, cs, w')"
      by (cases "fold_calls M f i (x # xs) (world v)") auto
    have "\<exists>v'. resume n M (core_reduce M v) = Some v' \<and> call_result r (calls (core_reduce M v) @ cs) w' v'"
      using assms(7) init(2) sp w
      by (intro reduce_resume [OF assms(6) inv]) auto
    then show ?thesis
      using sp init w by (auto simp add: reduce_spec_def call_result_def)
  next
    case pair
    from reduce_entry_pair [OF assms(1-5) pair, of M]
    have inv: "reduce_inv f (asArray s) 2 [x, y] (core_reduce M v)"
      and w: "world (core_reduce M v) = world v" "calls (core_reduce M v) = calls v" by auto
    obtain r cs w' where sp: "fold_calls M f x (y # ys) (world v) = (r, cs, w')"
      by (cases "fold_calls M f x (y # ys) (world v)") auto
    have "\<exists>v'. resume n M (core_reduce M v) = Some v' \<and> call_result r (calls (core_reduce M v) @ cs) w' v'"
      using assms(7) pair(2) sp w
      by (intro reduce_resume [OF assms(6) inv]) auto
    then show ?thesis
      using sp pair w by (auto simp add: reduce_spec_def call_result_def)
  qed
qed

text \<open>
  With \<open>add\<close>: \<open>reduce(add, [1,2,3,4])\<close> is \<open>10\<close> after three calls,
  \<open>reduce(add, [1,2,3,4], -1)\<close> is \<open>9\<close> after four, \<open>reduce(add, [5])\<close> is \<open>5\<close>
  and \<open>reduce(add, [], -1)\<close> is \<open>-1\<close> without a call.
\<close>

theorem reduce_contract_witness:
  "entered (call_with [fn 0, arr_item 7 [int_item 1, int_item 2, int_item 3, int_item 4]] (0::nat)) \<and>
   isCallable (fn 0) \<and> isArray (arr_item 7 [int_item 1, int_item 2, int_item 3, int_item 4]) \<and>
   (\<exists>v'. resume 4 script (core_reduce script
             (call_with [fn 0, arr_item 7 [int_item 1, int_item 2, int_item 3, int_item 4]] 0)) = Some v' \<and>
      regA v' = int_item 10 \<and> length (calls v') = 3) \<and>
   (\<exists>v'. resume 4 script (core_reduce script
             (call_with [fn 0, arr_item 7 [int_item 1, int_item 2, int_item 3, int_item 4], int_item (- 1)] 0)) = Some v' \<and>
      regA v' = int_item 9 \<and> length (calls v') = 4) \<and>
   (\<exists>v'. resume 1 script (core_reduce script (call_with [fn 0, arr_item 7 [int_item 5]] 0)) = Some v' \<and>
      regA v' = int_item 5 \<and> calls v' = []) \<and>
   (\<exists>v'. resume 0 script (core_reduce script (call_with [fn 0, arr_item 7 [], int_item (- 1)] 0)) = Some v' \<and>
      regA v' = int_item (- 1) \<and> calls v' = [])"
proof -
  let ?f = "fn 0"
  let ?s = "arr_item 7 [int_item 1, int_item 2, int_item 3, int_item 4]"
  let ?v1 = "call_with [?f, ?s] (0::nat)"
  let ?v2 = "call_with [?f, ?s, int_item (- 1)] (0::nat)"
  let ?s3 = "arr_item 7 [int_item 5]"
  let ?v3 = "call_with [?f, ?s3] (0::nat)"
  let ?s4 = "arr_item 7 []"
  let ?v4 = "call_with [?f, ?s4, int_item (- 1)] (0::nat)"
  have c: "isCallable ?f" by (simp add: isCallable_def)
  have a: "isArray ?s" "isArray ?s3" "isArray ?s4" by (simp_all add: isArray_def)
  have e: "entered ?v1" "entered ?v2" "entered ?v3" "entered ?v4" by (simp_all add: entered_def call_with_def)
  have p0: "param ?v1 0 = Some ?f" "param ?v2 0 = Some ?f" "param ?v3 0 = Some ?f" "param ?v4 0 = Some ?f"
    by (simp_all add: param_def call_with_def)
  have p1: "param ?v1 1 = Some ?s" "param ?v2 1 = Some ?s" "param ?v3 1 = Some ?s3" "param ?v4 1 = Some ?s4"
    by (simp_all add: param_def call_with_def)
  have l: "length (asArray ?s) < 4294967296" "length (asArray ?s) \<le> 4"
    "length (asArray ?s3) < 4294967296" "length (asArray ?s3) \<le> 0 + 1"
    "length (asArray ?s4) < 4294967296" "length (asArray ?s4) \<le> 0"
    by (simp_all add: asArray_def)
  have A: "\<exists>v'. resume 4 script (core_reduce script ?v1) = Some v' \<and> regA v' = int_item 10 \<and> length (calls v') = 3"
  proof -
    have s: "reduce_spec script ?f (asArray ?s) (param ?v1 2) (world ?v1) =
               (int_item 10, [(?f, [int_item 1, int_item 2]), (?f, [int_item 3, int_item 3]),
                              (?f, [int_item 6, int_item 4])], 3)"
      by (simp add: reduce_spec_def asArray_def param_def call_with_def script_def script_call_def asInteger_def)
    from reduce_contract [OF e(1) p0(1) c p1(1) a(1) l(1,2), of script]
    obtain v' r cs w where r: "resume 4 script (core_reduce script ?v1) = Some v'"
      "reduce_spec script ?f (asArray ?s) (param ?v1 2) (world ?v1) = (r, cs, w)"
      "regA v' = r" "calls v' = calls ?v1 @ cs"
      by blast
    from r(2) s have "r = int_item 10" "length cs = 3" by auto
    with r show ?thesis by (simp add: call_with_def)
  qed
  have B: "\<exists>v'. resume 4 script (core_reduce script ?v2) = Some v' \<and> regA v' = int_item 9 \<and> length (calls v') = 4"
  proof -
    have s: "reduce_spec script ?f (asArray ?s) (param ?v2 2) (world ?v2) =
               (int_item 9, [(?f, [int_item (- 1), int_item 1]), (?f, [int_item 0, int_item 2]),
                             (?f, [int_item 2, int_item 3]), (?f, [int_item 5, int_item 4])], 4)"
      by (simp add: reduce_spec_def asArray_def param_def call_with_def script_def script_call_def asInteger_def)
    from reduce_contract [OF e(2) p0(2) c p1(2) a(1) l(1,2), of script]
    obtain v' r cs w where r: "resume 4 script (core_reduce script ?v2) = Some v'"
      "reduce_spec script ?f (asArray ?s) (param ?v2 2) (world ?v2) = (r, cs, w)"
      "regA v' = r" "calls v' = calls ?v2 @ cs"
      by blast
    from r(2) s have "r = int_item 9" "length cs = 4" by auto
    with r show ?thesis by (simp add: call_with_def)
  qed
  have n3: "param ?v3 2 = None \<and> length (asArray ?s3) = 1" by (simp add: param_def call_with_def asArray_def)
  have C: "\<exists>v'. resume 1 script (core_reduce script ?v3) = Some v' \<and> regA v' = int_item 5 \<and> calls v' = []"
  proof -
    from reduce_contract [OF e(3) p0(3) c p1(3) a(2) l(3), of 1 script]
    obtain v' r cs w where r: "resume 1 script (core_reduce script ?v3) = Some v'"
      "regA v' = r" "calls v' = calls ?v3 @ cs"
      "param ?v3 2 = None \<and> length (asArray ?s3) = 1 \<longrightarrow> cs = [] \<and> r = asArray ?s3 ! 0"
      using l(4) by auto
    with n3 show ?thesis by (simp add: call_with_def asArray_def)
  qed
  have e4: "asArray ?s4 = []" by (simp add: asArray_def)
  have D: "\<exists>v'. resume 0 script (core_reduce script ?v4) = Some v' \<and> regA v' = int_item (- 1) \<and> calls v' = []"
  proof -
    from reduce_contract [OF e(4) p0(4) c p1(4) a(3) l(5,6), of script]
    obtain v' r cs w where r: "resume 0 script (core_reduce script ?v4) = Some v'"
      "regA v' = r" "calls v' = calls ?v4 @ cs"
      "asArray ?s4 = [] \<longrightarrow> cs = [] \<and> r = (case param ?v4 2 of Some i \<Rightarrow> i | None \<Rightarrow> nil_item)"
      by blast
    with e4 show ?thesis by (simp add: call_with_def param_def)
  qed
  from e(1) c a(1) A B C D show ?thesis by blast
qed

subsection \<open>cascade\<close>

lemma push_all: "foldl (\<lambda>s x. pushParameter x s) v xs = v\<lparr>pushed := pushed v @ xs\<rparr>"
  by (induction xs arbitrary: v) (simp_all add: pushParameter_def)

lemma push_initial_params_eq: "push_initial_params v = v\<lparr>pushed := pushed v @ drop 1 (params v)\<rparr>"
  by (simp add: push_initial_params_def push_all)

lemma resetOob_id: "\<not> isOob a \<Longrightarrow> resetOob a = a"
  by (cases a) (simp add: resetOob_def)

lemma to_uint32_Suc: "Suc n < 4294967296 \<Longrightarrow> to_uint32 (1 + int n) = Suc n"
  by (simp add: to_uint32_def)

lemma resume_cascade_next:
  "cascade_inv fns j inp acc v \<Longrightarrow>
   resume (Suc m) M v = finish m M (core_cascade_next M (run_frame M v))"
  by (subst resume_Suc_handler [where h = h_cascade_next])
     (simp_all add: cascade_inv_def call_handler_def)

lemma cascade_spec_stages: "cascade_spec M fns inp acc w = (res, cs, w') \<Longrightarrow> map fst cs = fns"
proof (induction fns arbitrary: inp acc w res cs w')
  case Nil
  then show ?case by simp
next
  case (Cons f fs)
  obtain r w1 where rc: "run_call M f inp w = (r, w1)" by (cases "run_call M f inp w") auto
  show ?case
  proof (cases "isOob r")
    case True
    obtain res' cs' w2 where rest: "cascade_spec M fs inp acc w1 = (res', cs', w2)"
      by (cases "cascade_spec M fs inp acc w1") auto
    with Cons.prems rc True have "cs = (f, inp) # cs'" by simp
    with Cons.IH [OF rest] show ?thesis by simp
  next
    case False
    obtain res' cs' w2 where rest: "cascade_spec M fs [r] (Some r) w1 = (res', cs', w2)"
      by (cases "cascade_spec M fs [r] (Some r) w1") auto
    with Cons.prems rc False have "cs = (f, inp) # cs'" by simp
    with Cons.IH [OF rest] show ?thesis by simp
  qed
qed

text \<open>
  With the call of stage \<open>j\<close> waiting, the call ends as \<open>cascade_spec\<close> says for
  the stages from \<open>j\<close> on.
\<close>

lemma cascade_resume:
  assumes len: "length fns < 4294967296"
  shows "cascade_inv fns j inp acc v \<Longrightarrow> j < length fns \<Longrightarrow> length fns - j \<le> n \<Longrightarrow>
         cascade_spec M (drop j fns) inp acc (world v) = (res, cs, w) \<Longrightarrow>
         \<exists>v'. resume n M v = Some v' \<and> call_result (accepted_or_nil res) (calls v @ cs) w v'"
proof (induction k \<equiv> "length fns - Suc j" arbitrary: j v n inp acc res cs w)
  case 0
  then have last: "Suc j = length fns" by simp
  from "0.prems"(2,3) obtain m where n: "n = Suc m" by (cases n) auto
  obtain r w1 where rc: "run_call M (fns ! j) inp (world v) = (r, w1)"
    by (cases "run_call M (fns ! j) inp (world v)") auto
  define v1 where "v1 = v\<lparr>regA := r, world := w1, frame := None, calls := calls v @ [(fns ! j, inp)]\<rparr>"
  have rf: "run_frame M v = v1"
    using "0.prems"(1) rc by (simp add: run_frame_def cascade_inv_def v1_def)
  have l0: "local v1 0 = int_item (int (Suc j))" and
       l1: "local v1 1 = (case acc of None \<Rightarrow> Item True FlcNil | Some a \<Rightarrow> a)"
    using "0.prems"(1) by (auto simp add: cascade_inv_def v1_def local_def)
  have cnt: "to_uint32 (asInteger (local v1 0)) = Suc j"
    using l0 last len by (simp add: asInteger_def to_uint32_nat)
  have dr: "drop j fns = [fns ! j]"
    using last "0.prems"(2) by (metis Cons_nth_drop_Suc drop_all le_refl)
  have sp: "res = (if isOob r then acc else Some r)" "cs = [(fns ! j, inp)]" "w = w1"
    using "0.prems"(4) rc dr by (auto split: if_splits)
  have acc_ok: "resetOob (case acc of None \<Rightarrow> Item True FlcNil | Some a \<Rightarrow> a) = accepted_or_nil acc"
    using "0.prems"(1)
    by (cases acc) (auto simp add: cascade_inv_def accepted_or_nil_def resetOob_id, simp add: resetOob_def)
  have two: "2 \<le> length (locals v1)" using "0.prems"(1) by (simp add: cascade_inv_def v1_def)
  have nx: "core_cascade_next M v1 =
              (if isOob r
               then (False, retval (accepted_or_nil acc) (set_local 1 (accepted_or_nil acc) v1))
               else (False, v1))"
    using "0.prems"(1) cnt last l1 acc_ok two
    by (simp add: core_cascade_next_def cascade_inv_def Let_def v1_def local_def set_local_def)
  have "resume n M v = finish m M (core_cascade_next M v1)"
    using resume_cascade_next [OF "0.prems"(1), of m M] n rf by simp
  then show ?case
    using nx sp "0.prems"(1)
    by (simp add: finish_def call_result_def returnHandler_def retval_def set_local_def v1_def
          cascade_inv_def accepted_or_nil_def)
next
  case (Suc k)
  then have lt: "Suc j < length fns" by simp
  from Suc.prems(2,3) obtain m where n: "n = Suc m" by (cases n) auto
  obtain r w1 where rc: "run_call M (fns ! j) inp (world v) = (r, w1)"
    by (cases "run_call M (fns ! j) inp (world v)") auto
  define v1 where "v1 = v\<lparr>regA := r, world := w1, frame := None, calls := calls v @ [(fns ! j, inp)]\<rparr>"
  have rf: "run_frame M v = v1"
    using Suc.prems(1) rc by (simp add: run_frame_def cascade_inv_def v1_def)
  have l0: "local v1 0 = int_item (int (Suc j))" and
       l1: "local v1 1 = (case acc of None \<Rightarrow> Item True FlcNil | Some a \<Rightarrow> a)"
    using Suc.prems(1) by (auto simp add: cascade_inv_def v1_def local_def)
  have cnt: "to_uint32 (asInteger (local v1 0)) = Suc j"
    using l0 lt len by (simp add: asInteger_def to_uint32_Suc)
  have call: "isCallable (fns ! Suc j)"
    using Suc.prems(1) lt by (simp add: cascade_inv_def list_all_length)
  define acc' where "acc' = (if isOob r then acc else Some r)"
  define inp' where "inp' = (if isOob r then inp else [r])"
  define v2 where "v2 = (set_local 0 (int_item (int (Suc j) + 1))
                           (if isOob r then v1 else set_local 1 r v1))\<lparr>frame := Some (fns ! Suc j, inp')\<rparr>"
  have oob_acc: "isOob (local v1 1) \<longleftrightarrow> acc = None"
    using l1 Suc.prems(1) by (cases acc) (auto simp add: cascade_inv_def)
  have inp_acc: "(case acc of None \<Rightarrow> inp = drop 1 (params v1) | Some a \<Rightarrow> inp = [a])"
    using Suc.prems(1) by (cases acc) (auto simp add: cascade_inv_def v1_def)
  have pc: "paramCount v1 - 1 = length (drop 1 (params v1))" by (simp add: paramCount_def)
  have nx: "core_cascade_next M v1 = (True, v2)"
  proof (cases "isOob r")
    case False
    then show ?thesis
      using Suc.prems(1) cnt lt call
      by (simp add: core_cascade_next_def cascade_inv_def Let_def v1_def v2_def inp'_def
            pushParameter_def set_local_def callFrame_def)
  next
    case True
    show ?thesis
    proof (cases acc)
      case None
      then show ?thesis
        using Suc.prems(1) cnt lt call True oob_acc inp_acc pc
        by (simp add: core_cascade_next_def cascade_inv_def Let_def v1_def v2_def inp'_def
              push_initial_params_eq set_local_def callFrame_def paramCount_def)
    next
      case (Some a)
      then show ?thesis
        using Suc.prems(1) cnt lt call True oob_acc inp_acc l1
        by (simp add: core_cascade_next_def cascade_inv_def Let_def v1_def v2_def inp'_def
              pushParameter_def set_local_def callFrame_def)
    qed
  qed
  have inv2: "cascade_inv fns (Suc j) inp' acc' v2"
    using Suc.prems(1)
    by (cases "locals v"; cases "tl (locals v)"; cases acc)
       (auto simp add: cascade_inv_def v2_def v1_def set_local_def local_def inp'_def acc'_def)
  have step: "resume n M v = resume m M v2"
    using resume_cascade_next [OF Suc.prems(1), of m M] n rf nx by (simp add: finish_def)
  have dr: "drop j fns = fns ! j # drop (Suc j) fns"
    using Suc.prems(2) by (simp add: Cons_nth_drop_Suc)
  obtain res' cs' w' where rest: "cascade_spec M (drop (Suc j) fns) inp' acc' w1 = (res', cs', w')"
    by (cases "cascade_spec M (drop (Suc j) fns) inp' acc' w1") auto
  have sp: "res = res'" "cs = (fns ! j, inp) # cs'" "w = w'"
    using Suc.prems(4) rc rest dr by (auto simp add: inp'_def acc'_def split: if_splits)
  have k: "k = length fns - Suc (Suc j)" using Suc.hyps(2) by simp
  have fuel: "length fns - Suc j \<le> m" using Suc.prems(3) n by simp
  have w2: "world v2 = w1" "calls v2 = calls v @ [(fns ! j, inp)]"
    by (simp_all add: v2_def v1_def set_local_def)
  from Suc.hyps(1) [OF k inv2 lt fuel, of res' cs' w'] rest w2
  obtain v' where "resume m M v2 = Some v'" "call_result (accepted_or_nil res') (calls v2 @ cs') w' v'"
    by auto
  then show ?case using step sp w2 by simp
qed

lemma cascade_entry:
  assumes "entered v" "param v 0 = Some c" "isArray c" "asArray c \<noteq> []" "list_all isCallable (asArray c)"
  shows "cascade_inv (asArray c) 0 (drop 1 (params v)) None (core_cascade M v) \<and>
         world (core_cascade M v) = world v \<and> calls (core_cascade M v) = calls v"
proof -
  have p: "params v \<noteq> []" "params v ! 0 = c" using entered_param [OF assms(2)] by auto
  have call: "isCallable (asArray c ! 0)"
    using assms(4,5) by (cases "asArray c") simp_all
  have pc: "paramCount v - 1 = length (drop 1 (params v))" by (simp add: paramCount_def)
  show ?thesis
    using assms p call pc
    by (simp add: core_cascade_def Let_def cascade_inv_def entered_def addLocals_def returnHandler_def
          push_initial_params_eq set_local_def callFrame_def local_def setOob_def paramCount_def)
qed

text \<open>
  Claim C3.  For every non-empty array of callables \<open>fns\<close> and arguments
  \<open>args\<close>: \<open>cascade(fns, args...)\<close> ends, calls every stage once, in order, the
  first one on \<open>args\<close>; the result of a stage that accepts becomes the sole
  argument of the next stage; the result of a stage that declines (an
  out-of-band value) is dropped and the next stage gets the unchanged input of
  the declining stage, which is \<open>args\<close> as long as no stage has accepted.  The
  result is the last accepted value (nil when every stage declined).
\<close>

theorem cascade_contract:
  assumes "entered v" and "param v 0 = Some c" and "isArray c" and "asArray c \<noteq> []"
    and "list_all isCallable (asArray c)" and "length (asArray c) < 4294967296"
    and "length (asArray c) \<le> n"
  shows "\<exists>v' res cs w. resume n M (core_cascade M v) = Some v' \<and>
           cascade_spec M (asArray c) (drop 1 (params v)) None (world v) = (res, cs, w) \<and>
           regA v' = accepted_or_nil res \<and> calls v' = calls v @ cs \<and> map fst cs = asArray c \<and>
           world v' = w \<and> raised v' = None"
proof -
  from cascade_entry [OF assms(1-5), of M]
  have inv: "cascade_inv (asArray c) 0 (drop 1 (params v)) None (core_cascade M v)"
    and w: "world (core_cascade M v) = world v" "calls (core_cascade M v) = calls v" by auto
  obtain res cs w' where sp: "cascade_spec M (asArray c) (drop 1 (params v)) None (world v) = (res, cs, w')"
    by (cases "cascade_spec M (asArray c) (drop 1 (params v)) None (world v)") auto
  have "\<exists>v'. resume n M (core_cascade M v) = Some v' \<and>
          call_result (accepted_or_nil res) (calls (core_cascade M v) @ cs) w' v'"
    using assms(4,7) sp w
    by (intro cascade_resume [OF assms(6) inv]) auto
  then show ?thesis
    using sp w cascade_spec_stages [OF sp] by (auto simp add: call_result_def)
qed

text \<open>\<open>cascade([square, sqrt], -4)\<close> is \<open>4\<close>: \<open>square\<close> is called on \<open>-4\<close>, \<open>sqrt\<close> on \<open>16\<close>.\<close>

theorem cascade_contract_witness:
  "entered (call_with [arr_item 7 [fn 1, fn 2], int_item (- 4)] (0::nat)) \<and>
   param (call_with [arr_item 7 [fn 1, fn 2], int_item (- 4)] (0::nat)) 0 = Some (arr_item 7 [fn 1, fn 2]) \<and>
   isArray (arr_item 7 [fn 1, fn 2]) \<and> asArray (arr_item 7 [fn 1, fn 2]) \<noteq> [] \<and>
   list_all isCallable (asArray (arr_item 7 [fn 1, fn 2])) \<and>
   (\<exists>v'. resume 2 script (core_cascade script (call_with [arr_item 7 [fn 1, fn 2], int_item (- 4)] 0)) = Some v' \<and>
      regA v' = int_item 4 \<and>
      calls v' = [(fn 1, [int_item (- 4)]), (fn 2, [int_item 16])])"
proof -
  let ?c = "arr_item 7 [fn 1, fn 2]"
  let ?v = "call_with [?c, int_item (- 4)] (0::nat)"
  have e: "entered ?v" by (simp add: entered_def call_with_def)
  have p: "param ?v 0 = Some ?c" by (simp add: param_def call_with_def)
  have a: "isArray ?c" "asArray ?c \<noteq> []" "list_all isCallable (asArray ?c)"
    by (simp_all add: isArray_def asArray_def isCallable_def)
  have l: "length (asArray ?c) < 4294967296" "length (asArray ?c) \<le> 2" by (simp_all add: asArray_def)
  have r16: "root_from 16 0 16 = 4" by code_simp
  have s: "cascade_spec script (asArray ?c) (drop 1 (params ?v)) None (world ?v) =
             (Some (int_item 4), [(fn 1, [int_item (- 4)]), (fn 2, [int_item 16])], 2)"
    by (simp add: asArray_def call_with_def script_def script_call_def asInteger_def r16)
  from cascade_contract [OF e p a l, of script]
  obtain v' res cs w where r: "resume 2 script (core_cascade script ?v) = Some v'"
    "cascade_spec script (asArray ?c) (drop 1 (params ?v)) None (world ?v) = (res, cs, w)"
    "regA v' = accepted_or_nil res" "calls v' = calls ?v @ cs"
    by blast
  from r(2) s have "res = Some (int_item 4)" "cs = [(fn 1, [int_item (- 4)]), (fn 2, [int_item 16])]"
    by simp_all
  with r have "resume 2 script (core_cascade script ?v) = Some v' \<and> regA v' = int_item 4 \<and>
      calls v' = [(fn 1, [int_item (- 4)]), (fn 2, [int_item 16])]"
    by (simp add: call_with_def accepted_or_nil_def)
  then show ?thesis using e p a by blast
qed


section \<open>Deep equality on dictionaries\<close>

lemma same_item_refl: "same_item a a"
  by (cases a; cases "payload a") (simp_all add: same_item_def)

text \<open>With equal first pairs the loop over two dictionaries exhausts every bound.\<close>

lemma eq_dicts_stuck: "eq_dicts cmp n d1 (p # ps) d2 (p # ps) = None"
proof (induction n)
  case 0
  show ?case by simp
next
  case (Suc n)
  show ?case
  proof (cases n)
    case 0
    then show ?thesis by simp
  next
    case (Suc m)
    then show ?thesis using Suc.IH by (simp add: same_item_refl)
  qed
qed

text \<open>
  Claim C6 says that \<open>eq\<close> on two acyclic dictionaries ends, with true exactly
  when they have the same length and equal pairs, and that it never destroys
  its arguments.  In the code, for two different dictionary objects that the
  ordering of the machine tells apart: when they hold the same pairs (at least
  one), \<open>internal_eq\<close> returns for no bound at all, because the loop compares the
  first pairs again and again; and when both are empty it returns true after
  destroying both dictionaries.
\<close>

theorem eq_dicts_never_returns:
  assumes "ps \<noteq> []" and "i \<noteq> j"
    and "cmp (dict_item i ps) (dict_item j ps) \<noteq> 0"
    and "cmp (dict_item i []) (dict_item j []) \<noteq> 0"
  shows "(\<forall>n. internal_eq cmp n (dict_item i ps) (dict_item j ps) = None) \<and>
         (\<forall>n. internal_eq cmp (Suc (Suc n)) (dict_item i []) (dict_item j []) = Some (True, [i, j]))"
proof (intro conjI allI)
  fix n
  obtain p ps' where ps: "ps = p # ps'" using assms(1) by (cases ps) auto
  show "internal_eq cmp n (dict_item i ps) (dict_item j ps) = None"
  proof (cases n)
    case 0
    then show ?thesis by simp
  next
    case (Suc m)
    then show ?thesis
      using assms(2,3) eq_dicts_stuck [of cmp m i p ps' j]
      by (simp add: ps same_item_def isArray_def isDict_def asDict_def object_id_def)
  qed
next
  fix n
  show "internal_eq cmp (Suc (Suc n)) (dict_item i []) (dict_item j []) = Some (True, [i, j])"
    using assms(2,4)
    by (simp add: same_item_def isArray_def isDict_def asDict_def object_id_def)
qed

text \<open>The dictionaries \<open>[1 => 2]\<close>, twice, and two empty dictionaries.\<close>

theorem eq_dicts_never_returns_witness:
  "[(int_item 1, int_item 2)] \<noteq> [] \<and> (1::nat) \<noteq> 2 \<and>
   identity_compare (dict_item 1 [(int_item 1, int_item 2)]) (dict_item 2 [(int_item 1, int_item 2)]) \<noteq> 0 \<and>
   identity_compare (dict_item 1 []) (dict_item 2 []) \<noteq> 0 \<and>
   (\<forall>n. internal_eq identity_compare n (dict_item 1 [(int_item 1, int_item 2)])
          (dict_item 2 [(int_item 1, int_item 2)]) = None) \<and>
   (\<forall>n. internal_eq identity_compare (Suc (Suc n)) (dict_item 1 []) (dict_item 2 []) = Some (True, [1, 2]))"
proof -
  have a: "[(int_item 1, int_item 2)] \<noteq> []" "(1::nat) \<noteq> 2" by simp_all
  have c: "identity_compare (dict_item 1 [(int_item 1, int_item 2)]) (dict_item 2 [(int_item 1, int_item 2)]) \<noteq> 0"
    "identity_compare (dict_item 1 []) (dict_item 2 []) \<noteq> 0"
    by (simp_all add: identity_compare_def same_item_def)
  show ?thesis using eq_dicts_never_returns [OF a c] a c by simp
qed

section \<open>Erasing a node under live iterators\<close>

lemma next_of_not_self: "distinct (map fst ch) \<Longrightarrow> next_of ch elem \<noteq> Some elem"
proof (induction ch elem rule: next_of.induct)
  case (3 p q ch elem)
  show ?case
  proof (cases "fst p = elem")
    case True
    then show ?thesis using "3.prems" by auto
  next
    case False
    then show ?thesis using 3 by simp
  qed
qed simp_all

lemma next_of_tail:
  "distinct (map fst ch) \<Longrightarrow> elem \<in> fst ` set ch \<Longrightarrow> (next_of ch elem = None) = (fst (last ch) = elem)"
proof (induction ch elem rule: next_of.induct)
  case (3 p q ch elem)
  show ?case
  proof (cases "fst p = elem")
    case True
    have "last (q # ch) \<in> set (q # ch)" by (rule last_in_set) simp
    then have "fst (last (q # ch)) \<in> fst ` set (q # ch)" by (rule imageI)
    moreover have "fst p \<notin> fst ` set (q # ch)" using "3.prems"(1) by simp
    ultimately have "fst (last (q # ch)) \<noteq> fst p" by metis
    then show ?thesis using True by simp
  next
    case False
    then show ?thesis using 3 by auto
  qed
qed auto

text \<open>
  Claim C7.  For every list (its nodes distinct), every node \<open>elem\<close> of it and
  however many registered iterators are positioned on \<open>elem\<close>: \<open>erase(elem)\<close>
  returns the successor of \<open>elem\<close>, none exactly when \<open>elem\<close> was the tail; in the
  list it leaves, \<open>elem\<close> is gone, the same iterators are registered, every
  iterator that was on \<open>elem\<close> is on that successor, or invalid if there is
  none, every other iterator is where it was, and no iterator is positioned on
  \<open>elem\<close>.
\<close>

theorem erase_repositions_iterators:
  assumes "distinct (map fst (chain l))" and "elem \<in> fst ` set (chain l)"
  shows "case erase l elem of
           (r, l') \<Rightarrow>
             r = next_of (chain l) elem \<and> (r = None) = (fst (last (chain l)) = elem) \<and>
             elem \<notin> fst ` set (chain l') \<and>
             map fst (m_iters l') = map fst (m_iters l) \<and>
             (\<forall>k < length (m_iters l).
                snd (m_iters l' ! k) = (if snd (m_iters l ! k) = Some elem then r else snd (m_iters l ! k))) \<and>
             iterators_on l' elem = []"
proof -
  have a: "next_of (chain l) elem \<noteq> Some elem" using assms(1) by (rule next_of_not_self)
  have b: "(next_of (chain l) elem = None) = (fst (last (chain l)) = elem)"
    using assms by (rule next_of_tail)
  have c: "map fst (map (\<lambda>(it, pos). if pos = Some elem then (it, next_of (chain l) elem) else (it, pos))
             (m_iters l)) = map fst (m_iters l)"
    by (induction "m_iters l") (auto split: prod.splits)
  have d: "filter (\<lambda>p. snd p = Some elem)
             (map (\<lambda>(it, pos). if pos = Some elem then (it, next_of (chain l) elem) else (it, pos))
             (m_iters l)) = []"
    using a by (auto simp add: filter_empty_conv split: prod.splits)
  have e: "\<forall>k < length (m_iters l).
             snd (map (\<lambda>(it, pos). if pos = Some elem then (it, next_of (chain l) elem) else (it, pos))
                   (m_iters l) ! k) =
             (if snd (m_iters l ! k) = Some elem then next_of (chain l) elem else snd (m_iters l ! k))"
    by (auto split: prod.splits)
  have f: "elem \<notin> fst ` set (filter (\<lambda>p. fst p \<noteq> elem) (chain l))" by auto
  show ?thesis
    using b c d e f by (simp add: erase_def notifyDeletion_def iterators_on_def)
qed

text \<open>
  Two iterators are on node \<open>20\<close> of the list of three nodes: erasing it moves
  both to node \<open>30\<close>; erasing node \<open>30\<close>, now the tail, invalidates both.
\<close>

theorem erase_repositions_iterators_witness:
  "distinct (map fst (chain list3)) \<and> 20 \<in> fst ` set (chain list3) \<and> iterators_on list3 20 = [1, 3] \<and>
   erase list3 20 =
     (Some 30, \<lparr>chain = [(10, int_item 1), (30, int_item 3)],
                m_iters = [(1, Some 30), (2, Some 10), (3, Some 30)]\<rparr>) \<and>
   erase (snd (erase list3 20)) 30 =
     (None, \<lparr>chain = [(10, int_item 1)], m_iters = [(1, None), (2, Some 10), (3, None)]\<rparr>) \<and>
   (case erase list3 20 of (r, l') \<Rightarrow> iterators_on l' 20 = [] \<and> r = Some 30)"
proof -
  have a: "distinct (map fst (chain list3))" "20 \<in> fst ` set (chain list3)"
    by (simp_all add: list3_def)
  have b: "erase list3 20 =
     (Some 30, \<lparr>chain = [(10, int_item 1), (30, int_item 3)],
                m_iters = [(1, Some 30), (2, Some 10), (3, Some 30)]\<rparr>)"
    by (simp add: erase_def notifyDeletion_def list3_def)
  have c: "erase (snd (erase list3 20)) 30 =
     (None, \<lparr>chain = [(10, int_item 1)], m_iters = [(1, None), (2, Some 10), (3, None)]\<rparr>)"
    by (simp add: b) (simp add: erase_def notifyDeletion_def)
  have d: "iterators_on list3 20 = [1, 3]" by (simp add: iterators_on_def list3_def)
  from erase_repositions_iterators [OF a]
  have t: "case erase list3 20 of (r, l') \<Rightarrow> iterators_on l' 20 = [] \<and> r = next_of (chain list3) 20"
    by (simp split: prod.splits)
  have n: "next_of (chain list3) 20 = Some 30" by (simp add: list3_def)
  from t n have t': "case erase list3 20 of (r, l') \<Rightarrow> iterators_on l' 20 = [] \<and> r = Some 30"
    by simp
  show ?thesis by (intro conjI a b c d t')
qed

section \<open>Where arguments are validated\<close>

subsection \<open>The primitives leave the error alone\<close>

lemma raised_prims [simp]:
  "raised (set_local i x v) = raised v"
  "raised (pushParameter x v) = raised v"
  "raised (retval x v) = raised v"
  "raised (retnil v) = raised v"
  "raised (returnHandler h v) = raised v"
  "raised (addLocals n v) = raised v"
  "raised (snd (callFrame f n v)) = raised v"
  "raised (snd (functionalEval M x v)) = raised v"
  "raised (push_initial_params v) = raised v"
  "raised (snd (new_array v)) = raised v"
  "raised (raiseRTError e v) = Some e"
  by (simp_all add: set_local_def pushParameter_def retval_def retnil_def returnHandler_def addLocals_def
        callFrame_def functionalEval_def push_initial_params_eq new_array_def raiseRTError_def
        split: prod.splits)

lemma raised_pair:
  "functionalEval M x v = (d, v1) \<Longrightarrow> raised v1 = raised v"
  "callFrame f n v = (ok, v2) \<Longrightarrow> raised v2 = raised v"
  "new_array v = (a, v3) \<Longrightarrow> raised v3 = raised v"
  using raised_prims(8) [of M x v] raised_prims(7) [of f n v] raised_prims(10) [of v] by simp_all

lemma raised_push_all [simp]: "raised (foldl (\<lambda>s x. pushParameter x s) v xs) = raised v"
  by (simp add: push_all)

lemma raised_any_next_loop: "raised (snd (any_next_loop M arr count v)) = raised v"
proof (induction M arr count v rule: any_next_loop.induct)
  case (1 M arr count v)
  show ?case
    using "1.IH"
    by (subst any_next_loop.simps) (auto split: prod.splits dest: raised_pair(1))
qed

lemma raised_all_next_loop: "raised (snd (all_next_loop M arr count v)) = raised v"
proof (induction M arr count v rule: all_next_loop.induct)
  case (1 M arr count v)
  show ?case
    using "1.IH"
    by (subst all_next_loop.simps) (auto split: prod.splits dest: raised_pair(1))
qed

lemma raised_any_loop: "raised (any_loop M arr i v) = raised v"
proof (induction M arr i v rule: any_loop.induct)
  case (1 M arr i v)
  show ?case
    using "1.IH"
    by (subst any_loop.simps) (auto split: prod.splits dest: raised_pair(1))
qed

lemma raised_all_loop: "raised (all_loop M arr i v) = raised v"
proof (induction M arr i v rule: all_loop.induct)
  case (1 M arr i v)
  show ?case
    using "1.IH"
    by (subst all_loop.simps) (auto split: prod.splits dest: raised_pair(1))
qed

lemma raised_firstof_loop: "raised (firstof_loop count v) = raised v"
proof (induction count v rule: firstof_loop.induct)
  case (1 count v)
  show ?case
    using "1.IH"
    by (subst firstof_loop.simps) (auto split: option.splits)
qed

subsection \<open>The handlers\<close>

lemma raised_run_frame [simp]: "raised (run_frame M v) = raised v"
  by (simp add: run_frame_def split: option.splits prod.splits)

lemma h_any: "raised (snd (core_any_next M v)) = raised v"
  by (simp add: core_any_next_def raised_any_next_loop)
lemma h_all: "raised (snd (core_all_next M v)) = raised v"
  by (simp add: core_all_next_def raised_all_next_loop Let_def)
lemma h_anyp: "raised (snd (core_anyp_next M v)) = raised v"
  by (simp add: core_anyp_next_def raised_any_next_loop)
lemma h_allp: "raised (snd (core_allp_next M v)) = raised v"
  by (simp add: core_allp_next_def raised_all_next_loop)
lemma h_map: "raised (snd (core_map_next M v)) = raised v"
  by (simp add: core_map_next_def Let_def)
lemma h_xmap: "raised (snd (core_xmap_next M v)) = raised v"
  by (auto simp add: core_xmap_next_def Let_def split: prod.splits dest: raised_pair(1))
lemma h_filter: "raised (snd (core_filter_next M v)) = raised v"
  by (simp add: core_filter_next_def Let_def)
lemma h_dolist: "raised (snd (core_dolist_next M v)) = raised v"
  by (auto simp add: core_dolist_next_def Let_def split: prod.splits dest: raised_pair(1))
lemma h_reduce: "raised (snd (core_reduce_next M v)) = raised v"
  by (simp add: core_reduce_next_def Let_def)
lemma h_iff: "raised (snd (core_iff_next M v)) = raised v"
  by (simp add: core_iff_next_def Let_def split: option.splits)
lemma h_choice: "raised (snd (core_choice_next M v)) = raised v"
  by (simp add: core_choice_next_def split: option.splits)
lemma h_floop: "raised (snd (core_floop_next M v)) = raised v"
  by (auto simp add: core_floop_next_def Let_def split: prod.splits dest: raised_pair(2))
lemma h_cascade: "raised v = None \<Longrightarrow> raised (snd (core_cascade_next M v)) \<noteq> Some e_inv_params"
  by (auto simp add: core_cascade_next_def Let_def split: prod.splits if_splits dest: raised_pair(2))

lemma handlers_never_inv_params:
  "h \<noteq> h_times_next \<Longrightarrow> raised v = None \<Longrightarrow> raised (snd (call_handler h M v)) \<noteq> Some e_inv_params"
  using h_cascade [of v M]
  by (cases h)
     (simp_all add: call_handler_def h_any h_all h_anyp h_allp h_map h_xmap h_filter h_dolist h_reduce
        h_iff h_choice h_floop)

subsection \<open>The entry points\<close>

lemma has_type_None: "param v i = None \<Longrightarrow> \<not> has_type v i P"
  by (simp add: has_type_def)

lemma has_type_Some: "param v i = Some x \<Longrightarrow> has_type v i P = P x"
  by (simp add: has_type_def)

lemma reject_array1:
  "\<not> has_type v 0 isArray \<Longrightarrow> core_any M v = raiseRTError e_inv_params v"
  "\<not> has_type v 0 isArray \<Longrightarrow> core_all M v = raiseRTError e_inv_params v"
  "\<not> has_type v 0 isArray \<Longrightarrow> core_floop M v = raiseRTError e_inv_params v"
  "\<not> has_type v 0 isArray \<Longrightarrow> core_cascade M v = raiseRTError e_inv_params v"
  by (simp_all add: has_type_def core_any_def core_all_def core_floop_def core_cascade_def
        split: option.splits)

lemma reject_callable_array:
  assumes "\<not> (has_type v 0 isCallable \<and> has_type v 1 isArray)"
  shows "core_map M v = raiseRTError e_inv_params v"
    and "core_xmap M v = raiseRTError e_inv_params v"
    and "core_filter M v = raiseRTError e_inv_params v"
    and "core_dolist M v = raiseRTError e_inv_params v"
    and "core_reduce M v = raiseRTError e_inv_params v"
  using assms
  by (auto simp add: has_type_def core_map_def core_xmap_def core_filter_def core_dolist_def
        core_reduce_def split: option.splits)

lemma reject_two:
  assumes "\<not> (has_type v 0 (\<lambda>_. True) \<and> has_type v 1 (\<lambda>_. True))"
  shows "core_iff M v = raiseRTError e_inv_params v"
    and "core_choice M v = raiseRTError e_inv_params v"
    and "core_eq cmp n v = Some (raiseRTError e_inv_params v, [])"
  using assms
  by (auto simp add: has_type_def core_iff_def core_choice_def core_eq_def split: option.splits)

lemma reject_lit: "\<not> has_type v 0 (\<lambda>_. True) \<Longrightarrow> core_lit M v = raiseRTError e_inv_params v"
  by (simp add: has_type_def core_lit_def split: option.splits)

lemma reject_times:
  assumes "\<not> (has_type v 0 (\<lambda>x. isOrdinal x \<or> (isRange x \<and> \<not> asRangeIsOpen x)) \<and>
              has_type v 1 (\<lambda>x. byref v 1 \<or> isNil x \<or> isOrdinal x) \<and> has_type v 2 isArray)"
  shows "core_times M v = raiseRTError e_inv_params v"
proof (cases "param v 0")
  case None
  then show ?thesis by (simp add: core_times_def)
next
  case p0: (Some ic)
  show ?thesis
  proof (cases "param v (Suc 0)")
    case None
    then show ?thesis by (simp add: core_times_def p0)
  next
    case p1: (Some iv)
    then have p1': "param v 1 = Some iv" by simp
    show ?thesis
    proof (cases "param v 2")
      case None
      then show ?thesis by (simp add: core_times_def p0 p1)
    next
      case p2: (Some sq)
      define c1 where "c1 \<longleftrightarrow> \<not> (isRange ic \<or> isOrdinal ic) \<or>
             \<not> (byref v 1 \<or> isNil iv \<or> isOrdinal iv) \<or> \<not> isArray sq"
      have unf: "core_times M v =
                  (if c1 then raiseRTError e_inv_params v
                   else if isRange ic \<and> asRangeIsOpen ic then raiseRTError e_inv_params v
                   else core_times M v)"
        unfolding c1_def by (subst core_times_def) (simp add: p0 p1 p2 core_times_def)
      from assms have "c1 \<or> (isRange ic \<and> asRangeIsOpen ic)"
        unfolding c1_def by (simp add: has_type_Some [OF p0] has_type_Some [OF p1'] has_type_Some [OF p1] has_type_Some [OF p2]) blast
      then show ?thesis using unf by (cases c1) simp_all
    qed
  qed
qed

lemma rejected_at_entry: "\<not> args_ok c v \<Longrightarrow> enter c M v = raiseRTError e_inv_params v"
  by (cases c)
     (simp_all add: args_ok_def enter_def reject_array1 reject_callable_array reject_two reject_lit
        reject_times)

lemma accept_any: "raised v = None \<Longrightarrow> raised (core_any M v) \<noteq> Some e_inv_params \<or> \<not> has_type v 0 isArray"
  by (auto simp add: has_type_def core_any_def raised_any_loop split: option.splits)

lemma accept_all: "raised v = None \<Longrightarrow> raised (core_all M v) \<noteq> Some e_inv_params \<or> \<not> has_type v 0 isArray"
  by (auto simp add: has_type_def core_all_def raised_all_loop Let_def split: option.splits)

lemma accept_variadic:
  "raised (core_anyp M v) = raised v"
  "raised (core_allp M v) = raised v"
  "raised (core_firstof M v) = raised v"
  by (simp_all add: core_anyp_def core_allp_def core_firstof_def raised_any_loop raised_all_loop
        raised_firstof_loop Let_def)

lemma accept_lit: "raised v = None \<Longrightarrow> raised (core_lit M v) \<noteq> Some e_inv_params \<or> \<not> has_type v 0 (\<lambda>_. True)"
  by (auto simp add: has_type_def core_lit_def split: option.splits)

lemma accept_floop: "raised v = None \<Longrightarrow> raised (core_floop M v) \<noteq> Some e_inv_params \<or> \<not> has_type v 0 isArray"
  using h_floop [of M "(set_local 0 (int_item (int (length (asArray (the (param v 0))))))
       (addLocals 1 v))\<lparr>ret_handler := Some h_floop_next, regA := nil_item\<rparr>"]
  by (auto simp add: has_type_def core_floop_def Let_def returnHandler_def set_local_def addLocals_def
        split: option.splits)

lemma accept_cascade: "raised v = None \<Longrightarrow> raised (core_cascade M v) \<noteq> Some e_inv_params \<or> \<not> has_type v 0 isArray"
  by (auto simp add: has_type_def core_cascade_def Let_def split: option.splits prod.splits
        dest: raised_pair(2))

lemma accept_map: "raised v = None \<Longrightarrow> has_type v 0 isCallable \<Longrightarrow> has_type v 1 isArray \<Longrightarrow> raised (core_map M v) = None"
  by (auto simp add: has_type_def core_map_def Let_def split: option.splits prod.splits
        dest: raised_pair(3))

lemma accept_xmap: "raised v = None \<Longrightarrow> has_type v 0 isCallable \<Longrightarrow> has_type v 1 isArray \<Longrightarrow> raised (core_xmap M v) = None"
  by (auto simp add: has_type_def core_xmap_def Let_def split: option.splits prod.splits
        dest!: raised_pair(3) raised_pair(1))

lemma accept_filter: "raised v = None \<Longrightarrow> has_type v 0 isCallable \<Longrightarrow> has_type v 1 isArray \<Longrightarrow> raised (core_filter M v) = None"
  by (auto simp add: has_type_def core_filter_def Let_def split: option.splits prod.splits
        dest: raised_pair(3))

lemma accept_dolist: "raised v = None \<Longrightarrow> has_type v 0 isCallable \<Longrightarrow> has_type v 1 isArray \<Longrightarrow> raised (core_dolist M v) = None"
  by (auto simp add: has_type_def core_dolist_def Let_def split: option.splits prod.splits
        dest: raised_pair(1))

lemma accept_reduce: "raised v = None \<Longrightarrow> has_type v 0 isCallable \<Longrightarrow> has_type v 1 isArray \<Longrightarrow> raised (core_reduce M v) = None"
  by (auto simp add: has_type_def core_reduce_def Let_def split: option.splits)

lemma accept_iff: "raised v = None \<Longrightarrow> has_type v 0 (\<lambda>_. True) \<Longrightarrow> has_type v 1 (\<lambda>_. True) \<Longrightarrow> raised (core_iff M v) = None"
  by (auto simp add: has_type_def core_iff_def Let_def split: option.splits prod.splits
        dest: raised_pair(1))

lemma accept_choice: "raised v = None \<Longrightarrow> has_type v 0 (\<lambda>_. True) \<Longrightarrow> has_type v 1 (\<lambda>_. True) \<Longrightarrow> raised (core_choice M v) = None"
  by (auto simp add: has_type_def core_choice_def Let_def split: option.splits prod.splits
        dest: raised_pair(1))

lemma times_next_callable:
  assumes "raised v = None" and "list_all isCallable (asArray (params v ! 2))"
    and "asArray (params v ! 2) \<noteq> []"
    and "to_uint32 (asInteger (local v 1)) \<le> length (asArray (params v ! 2))"
  shows "raised (snd (core_times_next M v)) = None"
proof -
  define sq where "sq = asArray (params v ! 2)"
  define id0 where "id0 = to_uint32 (asInteger (local v 1))"
  define cid where "cid = (if id0 = length sq \<or> is_oob_int (regA v) 1 then 0 else id0)"
  have "cid < length sq" using assms(3,4) by (auto simp add: cid_def sq_def id0_def)
  then have call: "isCallable (sq ! cid)" using assms(2) by (simp add: sq_def list_all_length)
  show ?thesis
    using assms(1) call
    by (simp add: core_times_next_def Let_def sq_def id0_def cid_def split: if_splits)
qed

lemma accept_times:
  assumes "raised v = None"
    and "has_type v 0 (\<lambda>x. isOrdinal x \<or> (isRange x \<and> \<not> asRangeIsOpen x))"
    and "has_type v 1 (\<lambda>x. byref v 1 \<or> isNil x \<or> isOrdinal x)" and "has_type v 2 isArray"
  shows "raised (core_times M v) = None"
proof -
  from assms(2-4) obtain ic iv sq where p: "param v 0 = Some ic" "param v (Suc 0) = Some iv" "param v 2 = Some sq"
    by (auto simp add: has_type_def split: option.splits)
  have ok: "isOrdinal ic \<or> (isRange ic \<and> \<not> asRangeIsOpen ic)" "byref v (Suc 0) \<or> isNil iv \<or> isOrdinal iv" "isArray sq"
    using assms(2-4) p by (simp_all add: has_type_def)
  have excl: "\<not> (isRange ic \<and> isOrdinal ic)"
    by (cases "payload ic") (simp_all add: isRange_def isOrdinal_def isInteger_def)
  have open_ok: "\<not> (isRange ic \<and> asRangeIsOpen ic)" using ok(1) excl by blast
  have first: "\<not> (\<not> (isRange ic \<or> isOrdinal ic) \<or> \<not> (byref v 1 \<or> isNil iv \<or> isOrdinal iv) \<or> \<not> isArray sq)"
    using ok by auto
  show ?thesis
    using assms(1) first open_ok
    by (simp add: core_times_def p Let_def split: if_splits prod.splits)
qed

lemma accepted_at_entry:
  "args_ok c v \<Longrightarrow> raised v = None \<Longrightarrow> raised (enter c M v) \<noteq> Some e_inv_params"
  using accept_any [of v M] accept_all [of v M] accept_lit [of v M] accept_floop [of v M]
    accept_cascade [of v M] accept_map [of v M] accept_xmap [of v M] accept_filter [of v M]
    accept_dolist [of v M] accept_reduce [of v M] accept_iff [of v M] accept_choice [of v M]
    accept_times [of v M]
  by (cases c) (simp_all add: args_ok_def enter_def accept_variadic)

text \<open>
  Claim C5, as the code has it.  For every combinator entered through the
  machine, and for \<open>eq\<close>: when the arguments do not have the documented arity
  and types, the entry point raises the invalid-argument error at once and
  changes nothing else, so no local, handler, frame or evaluation precedes the
  error; when they do, the entry point does not raise it.  No return handler
  other than that of \<open>times\<close> ever raises the invalid-argument error.  The
  handler of \<open>times\<close> checks that the element of the sequence it is about to
  call is callable; it raises nothing as long as every element is.
\<close>

theorem validation_at_entry:
  "(\<not> args_ok c v \<longrightarrow> enter c M v = raiseRTError e_inv_params v) \<and>
   (\<not> (has_type v 0 (\<lambda>_. True) \<and> has_type v 1 (\<lambda>_. True)) \<longrightarrow>
      core_eq cmp n v = Some (raiseRTError e_inv_params v, [])) \<and>
   (args_ok c v \<and> raised v = None \<longrightarrow> raised (enter c M v) \<noteq> Some e_inv_params) \<and>
   (h \<noteq> h_times_next \<and> raised v = None \<longrightarrow>
      raised (snd (call_handler h M (run_frame M v))) \<noteq> Some e_inv_params) \<and>
   (raised v = None \<and> list_all isCallable (asArray (params v ! 2)) \<and> asArray (params v ! 2) \<noteq> [] \<and>
    to_uint32 (asInteger (local v 1)) \<le> length (asArray (params v ! 2)) \<longrightarrow>
      raised (snd (core_times_next M v)) = None)"
  using rejected_at_entry [of c v M] reject_two(3) [of v cmp n] accepted_at_entry [of c v M]
    handlers_never_inv_params [of h "run_frame M v" M] times_next_callable [of v M]
  by simp

text \<open>
  Claim C5 as stated fails for \<open>times(2, nil, [add, 5])\<close>.  The arguments have
  the documented types and the entry point raises nothing.  The handler queues
  the call \<open>add(0)\<close>; entered again after that call has run, it finds that \<open>5\<close>
  is not callable and raises the invalid-argument error from the handler.
\<close>

theorem times_uncallable_counterexample:
  "args_ok c_times times_call \<and>
   raised (enter c_times script times_call) = None \<and>
   ret_handler (enter c_times script times_call) = Some h_times_next \<and>
   frame (snd (core_times_next script (enter c_times script times_call))) = Some (fn 0, [int_item 0]) \<and>
   raised (snd (core_times_next script (enter c_times script times_call))) = None \<and>
   raised (snd (core_times_next script
             (run_frame script (snd (core_times_next script (enter c_times script times_call)))))) =
     Some e_inv_params \<and>
   map_option raised (resume (Suc (Suc 0)) script (enter c_times script times_call)) = Some (Some e_inv_params) \<and>
   map_option calls (resume (Suc (Suc 0)) script (enter c_times script times_call)) = Some [(fn 0, [int_item 0])]"
  by (simp add: times_call_def call_with_def args_ok_def has_type_def param_def enter_def core_times_def
        core_times_next_def Let_def isOrdinal_def isInteger_def isRange_def isNil_def isArray_def
        asArray_def asInteger_def forceInteger_def to_int32_def to_uint32_def local_def set_local_def
        addLocals_def returnHandler_def retval_def range_item_def asRangeStart_def asRangeEnd_def
        asRangeStep_def is_oob_int_def isCallable_def isFunction_def pushParameter_def callFrame_def
        run_frame_def script_def script_call_def raiseRTError_def call_handler_def numeral_2_eq_2)

text \<open>
  \<open>reduce(1)\<close> and \<open>eq(1)\<close> are rejected at entry; \<open>times(2, nil, [add])\<close> is
  accepted and its handler raises nothing.
\<close>

theorem validation_at_entry_witness:
  "\<not> args_ok c_reduce reduce_bad_call \<and>
   enter c_reduce script reduce_bad_call = raiseRTError e_inv_params reduce_bad_call \<and>
   \<not> (has_type reduce_bad_call 0 (\<lambda>_. True) \<and> has_type reduce_bad_call 1 (\<lambda>_. True)) \<and>
   core_eq identity_compare 0 reduce_bad_call = Some (raiseRTError e_inv_params reduce_bad_call, []) \<and>
   args_ok c_times times_good_call \<and> raised times_good_call = None \<and>
   raised (enter c_times script times_good_call) \<noteq> Some e_inv_params \<and>
   h_reduce_next \<noteq> h_times_next \<and>
   raised (snd (call_handler h_reduce_next script (run_frame script times_good_call))) \<noteq> Some e_inv_params \<and>
   list_all isCallable (asArray (params times_good_call ! 2)) \<and> asArray (params times_good_call ! 2) \<noteq> [] \<and>
   to_uint32 (asInteger (local times_good_call 1)) \<le> length (asArray (params times_good_call ! 2)) \<and>
   raised (snd (core_times_next script times_good_call)) = None"
proof -
  have a: "\<not> args_ok c_reduce reduce_bad_call"
    by (simp add: args_ok_def has_type_def param_def reduce_bad_call_def call_with_def isCallable_def)
  have b: "\<not> (has_type reduce_bad_call 0 (\<lambda>_. True) \<and> has_type reduce_bad_call 1 (\<lambda>_. True))"
    by (simp add: has_type_def param_def reduce_bad_call_def call_with_def)
  have c: "args_ok c_times times_good_call" "raised times_good_call = None"
    by (simp_all add: args_ok_def has_type_def param_def times_good_call_def call_with_def isOrdinal_def
          isInteger_def isNil_def isArray_def)
  have d: "h_reduce_next \<noteq> h_times_next" by simp
  have e: "list_all isCallable (asArray (params times_good_call ! 2))"
    "asArray (params times_good_call ! 2) \<noteq> []"
    "to_uint32 (asInteger (local times_good_call 1)) \<le> length (asArray (params times_good_call ! 2))"
    by (simp_all add: times_good_call_def call_with_def asArray_def isCallable_def local_def asInteger_def
          to_uint32_def)
  note t1 = validation_at_entry [of c_reduce reduce_bad_call script identity_compare 0 h_reduce_next]
  note t2 = validation_at_entry [of c_times times_good_call script identity_compare 0 h_reduce_next]
  from t1 a have r1: "enter c_reduce script reduce_bad_call = raiseRTError e_inv_params reduce_bad_call"
    by blast
  from t1 b have r2: "core_eq identity_compare 0 reduce_bad_call = Some (raiseRTError e_inv_params reduce_bad_call, [])"
    by blast
  from t2 c have r3: "raised (enter c_times script times_good_call) \<noteq> Some e_inv_params" by blast
  from t2 c d have r4: "raised (snd (call_handler h_reduce_next script (run_frame script times_good_call))) \<noteq> Some e_inv_params"
    by blast
  from t2 c e have r5: "raised (snd (core_times_next script times_good_call)) = None" by blast
  show ?thesis by (intro conjI a b c d e r1 r2 r3 r4 r5)
qed

end
